theory Spec2Isabelle
  imports Main "HOL-Library.Word"
begin

unbundle bit_operations_syntax

section \<open>Data model of \<open>include/uuidv7/uuidv7.hpp\<close>\<close>

text \<open>
  \<open>std::uint8_t\<close>, \<open>std::uint16_t\<close> and \<open>std::uint64_t\<close> are words of that width.
  A \<open>std::array<uint8_t, N>\<close> is a list of bytes; its fixed length \<open>N\<close> is a hypothesis
  of the theorems that need it. A \<open>uuidv7\<close> holds one field, \<open>data_\<close>, an array of 16
  bytes, so the value is modelled by that array.
\<close>

type_synonym u8 = "8 word"
type_synonym u16 = "16 word"
type_synonym u64 = "64 word"
type_synonym bytes = "u8 list"

text \<open>
  Everything the library throws. \<open>invalid_format_error\<close> and
  \<open>sequence_overflow_error\<close> carry their message; \<open>system_error\<close> and
  \<open>runtime_error\<close> are what the platform's random source raises; a failed
  \<open>assert\<close> aborts the program.
\<close>

datatype exn =
    invalid_format_error string
  | sequence_overflow_error string
  | system_error string
  | runtime_error string
  | assertion_failed

definition MAX_RAND_A :: u16 where
  "MAX_RAND_A = 0x0FFF"

definition MAX_RAND_B :: u64 where
  "MAX_RAND_B = 0x3FFFFFFFFFFFFFFF"

definition VERSION :: u8 where
  "VERSION = 7"

definition VARIANT :: u8 where
  "VARIANT = 2"

text \<open>
  The private constructor \<open>uuidv7(unix_ts_ms, rand_a, rand_b)\<close>: two assertions, then
  sixteen byte stores. Each store narrows its right-hand side to a byte (\<open>ucast\<close>).
  The model is the build in which \<open>assert\<close> is active: a failed assertion ends the
  call with \<open>assertion_failed\<close>.
\<close>

definition uuidv7_ctor :: "u64 \<Rightarrow> u16 \<Rightarrow> u64 \<Rightarrow> exn + bytes" where
  "uuidv7_ctor unix_ts_ms rand_a rand_b =
     (if \<not> rand_a \<le> MAX_RAND_A then Inl assertion_failed
      else if \<not> rand_b \<le> MAX_RAND_B then Inl assertion_failed
      else Inr
        [ ucast (drop_bit 40 unix_ts_ms AND 0xFF),
          ucast (drop_bit 32 unix_ts_ms AND 0xFF),
          ucast (drop_bit 24 unix_ts_ms AND 0xFF),
          ucast (drop_bit 16 unix_ts_ms AND 0xFF),
          ucast (drop_bit 8 unix_ts_ms AND 0xFF),
          ucast (unix_ts_ms AND 0xFF),
          ucast (drop_bit 8 rand_a AND drop_bit 4 0xFF) OR push_bit 4 VERSION,
          ucast (rand_a AND 0xFF),
          ucast (drop_bit 56 rand_b AND drop_bit 2 0xFF) OR push_bit 6 VARIANT,
          ucast (drop_bit 48 rand_b AND 0xFF),
          ucast (drop_bit 40 rand_b AND 0xFF),
          ucast (drop_bit 32 rand_b AND 0xFF),
          ucast (drop_bit 24 rand_b AND 0xFF),
          ucast (drop_bit 16 rand_b AND 0xFF),
          ucast (drop_bit 8 rand_b AND 0xFF),
          ucast (rand_b AND 0xFF) ])"

text \<open>
  The value \<open>uuidv7 {0, 0, 0}\<close> that \<open>parse\<close>, \<open>try_parse\<close> and the default generator
  start from; both assertions hold for it.
\<close>

definition uuidv7_zero :: bytes where
  "uuidv7_zero = (case uuidv7_ctor 0 0 0 of Inr d \<Rightarrow> d | Inl _ \<Rightarrow> [])"

text \<open>\<open>operator<\<close> on \<open>std::array\<close>: lexicographic comparison of unsigned bytes.\<close>

fun uuid_less :: "bytes \<Rightarrow> bytes \<Rightarrow> bool" where
  "uuid_less [] [] = False"
| "uuid_less [] (y # ys) = True"
| "uuid_less (x # xs) [] = False"
| "uuid_less (x # xs) (y # ys) = (x < y \<or> (\<not> y < x \<and> uuid_less xs ys))"

subsection \<open>Reading the fields of the layout\<close>

text \<open>
  The fields of a 16-byte value, read as numbers: bytes are big-endian, the version is
  the high nibble of byte 6 and the variant the top two bits of byte 8, as \<open>from_bytes\<close>
  tests them.
\<close>

definition be_nat :: "bytes \<Rightarrow> nat" where
  "be_nat bs = foldl (\<lambda>acc b. acc * 256 + unat b) 0 bs"

definition version_of :: "bytes \<Rightarrow> u8" where
  "version_of d = drop_bit 4 (d ! 6) AND 0b1111"

definition variant_of :: "bytes \<Rightarrow> u8" where
  "variant_of d = drop_bit 6 (d ! 8) AND 0b11"

definition unix_ts_ms_of :: "bytes \<Rightarrow> nat" where
  "unix_ts_ms_of d = be_nat (take 6 d)"

definition rand_a_of :: "bytes \<Rightarrow> nat" where
  "rand_a_of d = unat (d ! 6 AND 0x0F) * 256 + unat (d ! 7)"

definition rand_b_of :: "bytes \<Rightarrow> nat" where
  "rand_b_of d = unat (d ! 8 AND 0x3F) * 2 ^ 56 + be_nat (drop 9 d)"

definition counter74 :: "bytes \<Rightarrow> nat" where
  "counter74 d = rand_a_of d * 2 ^ 62 + rand_b_of d"

text \<open>A well-formed value: sixteen bytes, version 7, variant \<open>0b10\<close>.\<close>

definition valid_uuid :: "bytes \<Rightarrow> bool" where
  "valid_uuid d \<longleftrightarrow> length d = 16 \<and> version_of d = VERSION \<and> variant_of d = VARIANT"

subsection \<open>\<open>from_bytes\<close>\<close>

definition from_bytes :: "bytes \<Rightarrow> exn + bytes" where
  "from_bytes bs =
     (if drop_bit 4 (bs ! 6) AND 0b1111 \<noteq> VERSION
        then Inl (invalid_format_error ''Invalid UUID Version 7 version'')
      else if drop_bit 6 (bs ! 8) AND 0b11 \<noteq> VARIANT
        then Inl (invalid_format_error ''Invalid UUID Version 7 variant'')
      else Inr bs)"

text \<open>
  The pointer overload: a null pointer is \<open>None\<close>; otherwise sixteen bytes are copied
  from the pointee into a fresh array, which goes to the array overload.
\<close>

function copy_loop :: "bytes \<Rightarrow> nat \<Rightarrow> bytes \<Rightarrow> bytes" where
  "copy_loop src i ary =
     (if i < 16 then copy_loop src (i + 1) (ary[i := src ! i]) else ary)"
  by pat_completeness auto
termination
  by (relation "measure (\<lambda>(src, i, ary). 16 - i)") auto

definition from_bytes_ptr :: "bytes option \<Rightarrow> exn + bytes" where
  "from_bytes_ptr p =
     (case p of
        None \<Rightarrow> Inl (invalid_format_error ''Input pointer is null'')
      | Some src \<Rightarrow> from_bytes (copy_loop src 0 (replicate 16 0)))"

definition get_bytes :: "bytes \<Rightarrow> bytes" where
  "get_bytes d = d"

subsection \<open>\<open>parse_inner\<close>, \<open>parse\<close> and \<open>try_parse\<close>\<close>

datatype ParseResult = Success | InvalidVersion | InvalidVariant | InvalidFormat

text \<open>
  The lambda \<open>hex_to_int\<close>. Characters are compared by their code; a \<open>char\<close> above
  127 is outside all three ranges whether \<open>char\<close> is signed or not.
\<close>

definition hex_to_int :: "char \<Rightarrow> u8" where
  "hex_to_int c =
     (let n = (of_char c :: nat) in
      if of_char CHR ''0'' \<le> n \<and> n \<le> of_char CHR ''9'' then of_nat (n - of_char CHR ''0'')
      else if of_char CHR ''a'' \<le> n \<and> n \<le> of_char CHR ''f'' then of_nat (n - of_char CHR ''a'' + 10)
      else if of_char CHR ''A'' \<le> n \<and> n \<le> of_char CHR ''F'' then of_nat (n - of_char CHR ''A'' + 10)
      else 0xFF)"

text \<open>
  The decoding loop of \<open>parse_inner\<close>: \<open>i\<close> counts the bytes, \<open>c\<close> is the position in
  the string, \<open>result\<close> is the caller's array, written byte by byte.
\<close>

function parse_loop :: "string \<Rightarrow> bool \<Rightarrow> nat \<Rightarrow> nat \<Rightarrow> bytes \<Rightarrow> ParseResult \<times> bytes" where
  "parse_loop str include_hyphens i c result =
     (if i < 16 then
        (let c1 = (if include_hyphens \<and> (c = 8 \<or> c = 13 \<or> c = 18 \<or> c = 23) then c + 1 else c);
             h1 = hex_to_int (str ! c1);
             h2 = hex_to_int (str ! (c1 + 1))
         in if h1 = 0xFF \<or> h2 = 0xFF then (InvalidFormat, result)
            else parse_loop str include_hyphens (i + 1) (c1 + 2) (result[i := push_bit 4 h1 OR h2]))
      else (Success, result))"
  by pat_completeness auto
termination
  by (relation "measure (\<lambda>(str, h, i, c, result). 16 - i)") auto

text \<open>What \<open>parse_inner\<close> does once the length branch has fixed the two indices.\<close>

definition parse_checks :: "string \<Rightarrow> bool \<Rightarrow> nat \<Rightarrow> nat \<Rightarrow> bytes \<Rightarrow> ParseResult \<times> bytes" where
  "parse_checks str include_hyphens version_index variant_index result =
     (if str ! version_index \<noteq> CHR ''7'' then (InvalidVersion, result)
      else
        (let var_char = hex_to_int (str ! variant_index)
         in if var_char = 0xFF then (InvalidFormat, result)
            else if drop_bit 2 (var_char AND 0b1100) \<noteq> VARIANT then (InvalidVariant, result)
            else parse_loop str include_hyphens 0 0 result))"

definition parse_inner :: "string \<Rightarrow> bytes \<Rightarrow> ParseResult \<times> bytes" where
  "parse_inner str result =
     (if length str = 36 then
        (if str ! 8 \<noteq> CHR ''-'' \<or> str ! 13 \<noteq> CHR ''-'' \<or> str ! 18 \<noteq> CHR ''-'' \<or> str ! 23 \<noteq> CHR ''-''
           then (InvalidFormat, result)
         else parse_checks str True 14 19 result)
      else if length str = 32 then parse_checks str False 12 16 result
      else (InvalidFormat, result))"

definition parse :: "string \<Rightarrow> exn + bytes" where
  "parse str =
     (case parse_inner str uuidv7_zero of
        (Success, result) \<Rightarrow> Inr result
      | (InvalidVersion, _) \<Rightarrow> Inl (invalid_format_error ''Invalid UUID Version 7 version'')
      | (InvalidVariant, _) \<Rightarrow> Inl (invalid_format_error ''Invalid UUID Version 7 variant'')
      | (InvalidFormat, _) \<Rightarrow> Inl (invalid_format_error ''Invalid UUID Version 7 string format''))"

definition try_parse :: "string \<Rightarrow> bytes option" where
  "try_parse str =
     (case parse_inner str uuidv7_zero of
        (Success, result) \<Rightarrow> Some result
      | _ \<Rightarrow> None)"

subsection \<open>\<open>to_string\<close>\<close>

definition HEX_CHARS :: string where
  "HEX_CHARS = ''0123456789abcdef''"

function to_string_loop :: "bytes \<Rightarrow> bool \<Rightarrow> nat \<Rightarrow> nat \<Rightarrow> string \<Rightarrow> string" where
  "to_string_loop bs include_hyphens i c result =
     (if i < 16 then
        (let hy = include_hyphens \<and> (i = 4 \<or> i = 6 \<or> i = 8 \<or> i = 10);
             result1 = (if hy then result[c := CHR ''-''] else result);
             c1 = (if hy then c + 1 else c);
             byte = bs ! i;
             result2 = result1[c1 := HEX_CHARS ! unat (drop_bit 4 byte AND 0x0F)];
             result3 = result2[c1 + 1 := HEX_CHARS ! unat (byte AND 0x0F)]
         in to_string_loop bs include_hyphens (i + 1) (c1 + 2) result3)
      else result)"
  by pat_completeness auto
termination
  by (relation "measure (\<lambda>(bs, h, i, c, result). 16 - i)") auto

definition to_string :: "bytes \<Rightarrow> bool \<Rightarrow> string" where
  "to_string d include_hyphens =
     to_string_loop (get_bytes d) include_hyphens 0 0
       (replicate (if include_hyphens then 36 else 32) (CHR 0x00))"

section \<open>The generator of \<open>src/generator.cpp\<close>\<close>

text \<open>
  \<open>memcmp\<close> on two byte ranges of the same length: the sign of the first difference,
  bytes compared unsigned. \<open>memcpy\<close> stores \<open>n\<close> bytes of the source, from offset
  \<open>soff\<close>, into the destination from offset \<open>doff\<close>, one after the other.
\<close>

fun memcmp :: "bytes \<Rightarrow> bytes \<Rightarrow> int" where
  "memcmp (x # xs) (y # ys) = (if x < y then - 1 else if y < x then 1 else memcmp xs ys)"
| "memcmp _ _ = 0"

fun memcpy :: "bytes \<Rightarrow> nat \<Rightarrow> bytes \<Rightarrow> nat \<Rightarrow> nat \<Rightarrow> bytes" where
  "memcpy dst doff src soff 0 = dst"
| "memcpy dst doff src soff (Suc n) = memcpy (dst[doff := src ! soff]) (Suc doff) src (Suc soff) n"

text \<open>
  The clock reading \<open>millis\<close> is a signed 64-bit count; the loop stores its low byte
  and shifts it right (arithmetically) by 8, for \<open>i\<close> from 5 down to 0.
\<close>

fun millis_loop :: "nat \<Rightarrow> u64 \<Rightarrow> bytes \<Rightarrow> bytes" where
  "millis_loop 0 millis millis_bytes = millis_bytes"
| "millis_loop (Suc i) millis millis_bytes =
     millis_loop i (signed_drop_bit 8 millis) (millis_bytes[i := ucast (millis AND 0xFF)])"

definition millis_bytes_of :: "u64 \<Rightarrow> bytes" where
  "millis_bytes_of millis = millis_loop 6 millis (replicate 6 0)"

text \<open>
  The \<open>while (target > 8)\<close> loop over bytes 15 down to 9. It returns the array and the
  final \<open>target\<close>: 0 after an increment, 8 when all seven bytes wrapped.
\<close>

function while_loop :: "bytes \<Rightarrow> nat \<Rightarrow> bytes \<times> nat" where
  "while_loop d target =
     (if target > 8 then
        (if d ! target < 0xFF then (d[target := d ! target + 1], 0)
         else while_loop (d[target := 0]) (target - 1))
      else (d, target))"
  by pat_completeness auto
termination
  by (relation "measure (\<lambda>(d, target). target)") auto

text \<open>
  The \<open>do { ... } while (false)\<close> block. It returns the array as the block leaves it
  and the exception, if it throws: the stores made before the \<open>throw\<close> stay.
\<close>

definition do_block :: "bytes \<Rightarrow> bytes \<times> exn option" where
  "do_block d =
     (if d ! 8 AND 0x3F < 0x3F then (d[8 := d ! 8 + 1], None)
      else
        (let d1 = d[8 := 0x00 OR push_bit 6 VARIANT]
         in if d1 ! 7 < 0xFF then (d1[7 := d1 ! 7 + 1], None)
            else
              (let d2 = d1[7 := 0x00]
               in if d2 ! 6 AND 0x0F < 0x0F then (d2[6 := d2 ! 6 + 1], None)
                  else (d2, Some (sequence_overflow_error
                    ''Too many UUIDs generated in the same millisecond; sequence counter overflowed.'')))))"

text \<open>
  The \<open>else\<close> branch of \<open>generate\<close>: the loop, then the block when the loop left
  \<open>target\<close> above 0.
\<close>

definition increment_branch :: "bytes \<Rightarrow> bytes \<times> exn option" where
  "increment_branch d =
     (case while_loop d 15 of
        (d1, target) \<Rightarrow> if target > 0 then do_block d1 else (d1, None))"

text \<open>
  The \<open>then\<close> branch after \<open>generate_random\<close> has returned \<open>rand\<close>: three \<open>memcpy\<close>
  calls and the two stores that force version and variant.
\<close>

definition fresh_branch :: "bytes \<Rightarrow> bytes \<Rightarrow> bytes \<Rightarrow> bytes" where
  "fresh_branch last_generated millis_bytes rand =
     (let d1 = memcpy last_generated 0 millis_bytes 0 6;
          d2 = memcpy d1 6 rand 0 2;
          d3 = memcpy d2 8 rand 2 8;
          d4 = d3[6 := (drop_bit 4 (d3 ! 6) AND drop_bit 4 0xFF) OR push_bit 4 VERSION];
          d5 = d4[8 := (drop_bit 2 (d4 ! 8) AND drop_bit 2 0xFF) OR push_bit 6 VARIANT]
      in d5)"

text \<open>
  \<open>generate\<close>. The state is the generator's \<open>last_generated_\<close> and the state \<open>rs\<close> of
  the random source; \<open>generate_random\<close> is the platform's random source, which returns
  ten bytes or throws, and moves to its next state. \<open>millis\<close> is what the clock reads
  during the call. The result is what the call returns or throws, with the state it
  leaves. The mutex is held for the whole call, so a call is one step.
\<close>

definition generate ::
  "('r \<Rightarrow> (exn + bytes) \<times> 'r) \<Rightarrow> u64 \<Rightarrow> bytes \<times> 'r \<Rightarrow> (exn + bytes) \<times> bytes \<times> 'r" where
  "generate generate_random millis s =
     (case s of (last_generated, rs) \<Rightarrow>
        (let millis_bytes = millis_bytes_of millis
         in if memcmp (take 6 last_generated) (take 6 millis_bytes) < 0 then
              (case generate_random rs of
                 (Inl e, rs1) \<Rightarrow> (Inl e, last_generated, rs1)
               | (Inr rand, rs1) \<Rightarrow>
                   (let d = fresh_branch last_generated millis_bytes rand
                    in (Inr d, d, rs1)))
            else
              (case increment_branch last_generated of
                 (d, None) \<Rightarrow> (Inr d, d, rs)
               | (d, Some e) \<Rightarrow> (Inl e, d, rs))))"

text \<open>
  \<open>n\<close> calls in succession on one generator, one clock reading per call: the list of
  what each call returned or threw, and the final state.
\<close>

fun generate_seq ::
  "('r \<Rightarrow> (exn + bytes) \<times> 'r) \<Rightarrow> u64 list \<Rightarrow> bytes \<times> 'r \<Rightarrow> (exn + bytes) list \<times> bytes \<times> 'r" where
  "generate_seq generate_random [] s = ([], s)"
| "generate_seq generate_random (millis # clock) s =
     (case generate generate_random millis s of
        (res, s1) \<Rightarrow>
          (case generate_seq generate_random clock s1 of
             (rest, s2) \<Rightarrow> (res # rest, s2)))"

section \<open>Vocabulary of the specification\<close>

text \<open>
  The names the specification uses for the three failures of \<open>parse\<close>: each is an
  \<open>invalid_format_error\<close>, told apart by its message.
\<close>

definition format_error :: exn where
  "format_error = invalid_format_error ''Invalid UUID Version 7 string format''"

definition version_error :: exn where
  "version_error = invalid_format_error ''Invalid UUID Version 7 version''"

definition variant_error :: exn where
  "variant_error = invalid_format_error ''Invalid UUID Version 7 variant''"

text \<open>
  The textual forms: a hexadecimal digit, the hyphens of the \<open>8-4-4-4-12\<close> grouping,
  the positions of version and variant, and the positions that hold digits. The
  hexadecimal digits whose top two bits are \<open>0b10\<close> are \<open>8\<close>, \<open>9\<close>, \<open>a\<close> and
  \<open>b\<close>. \<open>first_check_ok\<close> is what the length branch of \<open>parse_inner\<close> lets
  through: 36 characters with the four hyphens, or any 32 characters.
\<close>

definition is_hex_digit :: "char \<Rightarrow> bool" where
  "is_hex_digit c \<longleftrightarrow> c \<in> set ''0123456789abcdefABCDEF''"

definition hyphens_ok :: "string \<Rightarrow> bool" where
  "hyphens_ok s \<longleftrightarrow>
     s ! 8 = CHR ''-'' \<and> s ! 13 = CHR ''-'' \<and> s ! 18 = CHR ''-'' \<and> s ! 23 = CHR ''-''"

definition first_check_ok :: "string \<Rightarrow> bool" where
  "first_check_ok s \<longleftrightarrow> (length s = 36 \<and> hyphens_ok s) \<or> length s = 32"

definition version_position :: "string \<Rightarrow> nat" where
  "version_position s = (if length s = 36 then 14 else 12)"

definition variant_position :: "string \<Rightarrow> nat" where
  "variant_position s = (if length s = 36 then 19 else 16)"

definition hex_positions :: "string \<Rightarrow> nat list" where
  "hex_positions s =
     (if length s = 36 then [0..<8] @ [9..<13] @ [14..<18] @ [19..<23] @ [24..<36]
      else [0..<32])"

definition all_hex :: "string \<Rightarrow> bool" where
  "all_hex s \<longleftrightarrow> list_all (\<lambda>p. is_hex_digit (s ! p)) (hex_positions s)"

text \<open>
  The two accepted layouts in the specification's words: 36 characters with hyphens at
  positions 8, 13, 18 and 23, or 32 characters with no hyphens. A hyphen at any position
  that holds a digit is a misplaced hyphen.
\<close>

definition no_stray_hyphens :: "string \<Rightarrow> bool" where
  "no_stray_hyphens s \<longleftrightarrow> list_all (\<lambda>p. s ! p \<noteq> CHR ''-'') (hex_positions s)"

definition layout_ok :: "string \<Rightarrow> bool" where
  "layout_ok s \<longleftrightarrow>
     (length s = 36 \<and> hyphens_ok s \<and> no_stray_hyphens s) \<or>
     (length s = 32 \<and> no_stray_hyphens s)"

text \<open>
  The order in which the failures of a string are reported, as the specification words
  it: wrong length or misplaced hyphens first, then version, then the variant character,
  then every digit.
\<close>

definition classify :: "string \<Rightarrow> ParseResult" where
  "classify s =
     (if \<not> layout_ok s then InvalidFormat
      else if s ! version_position s \<noteq> CHR ''7'' then InvalidVersion
      else if \<not> is_hex_digit (s ! variant_position s) then InvalidFormat
      else if s ! variant_position s \<notin> set ''89abAB'' then InvalidVariant
      else if \<not> all_hex s then InvalidFormat
      else Success)"

text \<open>
  The same order with the first test as the code makes it: only the length and, for 36
  characters, the four hyphen positions; a hyphen elsewhere is met later, as a character
  that is no hexadecimal digit.
\<close>

definition check_order :: "string \<Rightarrow> ParseResult" where
  "check_order s =
     (if \<not> first_check_ok s then InvalidFormat
      else if s ! version_position s \<noteq> CHR ''7'' then InvalidVersion
      else if \<not> is_hex_digit (s ! variant_position s) then InvalidFormat
      else if s ! variant_position s \<notin> set ''89abAB'' then InvalidVariant
      else if \<not> all_hex s then InvalidFormat
      else Success)"

text \<open>The two characters \<open>to_string\<close> writes for a byte.\<close>

definition hex_hi :: "u8 \<Rightarrow> char" where
  "hex_hi b = HEX_CHARS ! unat (drop_bit 4 b AND 0x0F)"

definition hex_lo :: "u8 \<Rightarrow> char" where
  "hex_lo b = HEX_CHARS ! unat (b AND 0x0F)"

text \<open>
  Two random sources for the examples: one returns the same bytes at every call and
  counts its calls, one fails at every call with the given exception.
\<close>

definition const_random :: "bytes \<Rightarrow> nat \<Rightarrow> (exn + bytes) \<times> nat" where
  "const_random bs n = (Inr bs, Suc n)"

definition failing_random :: "exn \<Rightarrow> nat \<Rightarrow> (exn + bytes) \<times> nat" where
  "failing_random e n = (Inl e, n)"

text \<open>The top \<open>k\<close> bits of a string of bytes, as a number.\<close>

definition top_bits :: "nat \<Rightarrow> bytes \<Rightarrow> nat" where
  "top_bits k bs = be_nat bs div 2 ^ (8 * length bs - k)"

section \<open>Arrays of fixed length, written out\<close>

lemma length16_explicit:
  assumes "length (xs :: 'a list) = 16"
  obtains b0 b1 b2 b3 b4 b5 b6 b7 b8 b9 b10 b11 b12 b13 b14 b15
  where "xs = [b0, b1, b2, b3, b4, b5, b6, b7, b8, b9, b10, b11, b12, b13, b14, b15]"
  using assms by (auto simp: eval_nat_numeral length_Suc_conv)

lemma length32_explicit:
  assumes "length (s :: 'a list) = 32"
  obtains c0 c1 c2 c3 c4 c5 c6 c7 c8 c9 c10 c11 c12 c13 c14 c15 c16 c17 c18 c19 c20 c21 c22 c23
    c24 c25 c26 c27 c28 c29 c30 c31
  where "s = [c0, c1, c2, c3, c4, c5, c6, c7, c8, c9, c10, c11, c12, c13, c14, c15, c16, c17,
    c18, c19, c20, c21, c22, c23, c24, c25, c26, c27, c28, c29, c30, c31]"
  using assms by (auto simp: eval_nat_numeral length_Suc_conv)

lemma length36_explicit:
  assumes "length (s :: 'a list) = 36"
  obtains c0 c1 c2 c3 c4 c5 c6 c7 c8 c9 c10 c11 c12 c13 c14 c15 c16 c17 c18 c19 c20 c21 c22 c23
    c24 c25 c26 c27 c28 c29 c30 c31 c32 c33 c34 c35
  where "s = [c0, c1, c2, c3, c4, c5, c6, c7, c8, c9, c10, c11, c12, c13, c14, c15, c16, c17,
    c18, c19, c20, c21, c22, c23, c24, c25, c26, c27, c28, c29, c30, c31, c32, c33, c34, c35]"
  using assms by (auto simp: eval_nat_numeral length_Suc_conv)

lemma upt_0_8: "[0..<8] = [0, 1, 2, 3, 4, 5, 6, 7 :: nat]"
  by (simp add: eval_nat_numeral upt_conv_Cons)

lemma upt_0_32:
  "[0..<32] = [0, 1, 2, 3, 4, 5, 6, 7, 8, 9, 10, 11, 12, 13, 14, 15, 16, 17, 18, 19, 20,
    21, 22, 23, 24, 25, 26, 27, 28, 29, 30, 31 :: nat]"
  by (simp add: eval_nat_numeral upt_conv_Cons)

section \<open>Bytes, nibbles and masks\<close>

lemma mask_0F: "(w :: 'a::len word) AND 0x0F = take_bit 4 w"
  by (simp add: take_bit_eq_mask mask_eq_exp_minus_1)

lemma mask_03: "(w :: 'a::len word) AND 3 = take_bit 2 w"
  by (simp add: take_bit_eq_mask mask_eq_exp_minus_1)

lemma mask_3F: "(w :: 'a::len word) AND 0x3F = take_bit 6 w"
  by (simp add: take_bit_eq_mask mask_eq_exp_minus_1)

lemma mask_FF: "(w :: 'a::len word) AND 0xFF = take_bit 8 w"
  by (simp add: take_bit_eq_mask mask_eq_exp_minus_1)

lemma nibble_cases:
  fixes n :: u8
  assumes "n < 16"
  shows "n \<in> {0, 1, 2, 3, 4, 5, 6, 7, 8, 9, 10, 11, 12, 13, 14, 15}"
proof -
  have "unat n < 16" using assms by (simp add: word_less_nat_alt)
  then have "unat n \<in> {0, 1, 2, 3, 4, 5, 6, 7, 8, 9, 10, 11, 12, 13, 14, 15}"
    by simp arith
  then have "of_nat (unat n) \<in>
      ((of_nat ` {0, 1, 2, 3, 4, 5, 6, 7, 8, 9, 10, 11, 12, 13, 14, 15}) :: u8 set)"
    by (rule imageI)
  then show ?thesis by simp
qed

lemma hi_nibble_less: "drop_bit 4 (b :: u8) AND 0x0F < 16"
  by (rule le_less_trans [OF word_and_le1]) simp

lemma lo_nibble_less: "(b :: u8) AND 0x0F < 16"
  by (rule le_less_trans [OF word_and_le1]) simp

lemma hi_nibble_not_FF: "drop_bit 4 (b :: u8) AND 0x0F \<noteq> 0xFF"
  using hi_nibble_less [of b] by auto

lemma lo_nibble_not_FF: "(b :: u8) AND 0x0F \<noteq> 0xFF"
  using lo_nibble_less [of b] by auto

lemma nibbles_join: "push_bit 4 (drop_bit 4 b AND 0x0F) OR (b AND 0x0F) = (b :: u8)"
  unfolding mask_0F by (rule bit_word_eqI) (auto simp: bit_simps)

lemma nibbles_join_nf: "push_bit 4 (drop_bit 4 b) AND 240 OR b AND 15 = (b :: u8)"
  using nibbles_join [of b] by simp

lemma VARIANT_AND_3: "VARIANT AND 3 = VARIANT"
  by (simp add: VARIANT_def)

section \<open>Hexadecimal digits\<close>

lemma hex_digit_values:
  "hex_to_int CHR ''0'' = 0" "hex_to_int CHR ''1'' = 1" "hex_to_int CHR ''2'' = 2"
  "hex_to_int CHR ''3'' = 3" "hex_to_int CHR ''4'' = 4" "hex_to_int CHR ''5'' = 5"
  "hex_to_int CHR ''6'' = 6" "hex_to_int CHR ''7'' = 7" "hex_to_int CHR ''8'' = 8"
  "hex_to_int CHR ''9'' = 9" "hex_to_int CHR ''a'' = 10" "hex_to_int CHR ''b'' = 11"
  "hex_to_int CHR ''c'' = 12" "hex_to_int CHR ''d'' = 13" "hex_to_int CHR ''e'' = 14"
  "hex_to_int CHR ''f'' = 15" "hex_to_int CHR ''A'' = 10" "hex_to_int CHR ''B'' = 11"
  "hex_to_int CHR ''C'' = 12" "hex_to_int CHR ''D'' = 13" "hex_to_int CHR ''E'' = 14"
  "hex_to_int CHR ''F'' = 15"
  by (simp_all add: hex_to_int_def)

lemma is_hex_digit_cases:
  assumes "is_hex_digit c"
  shows "c = CHR ''0'' \<or> c = CHR ''1'' \<or> c = CHR ''2'' \<or> c = CHR ''3'' \<or> c = CHR ''4'' \<or>
    c = CHR ''5'' \<or> c = CHR ''6'' \<or> c = CHR ''7'' \<or> c = CHR ''8'' \<or> c = CHR ''9'' \<or>
    c = CHR ''a'' \<or> c = CHR ''b'' \<or> c = CHR ''c'' \<or> c = CHR ''d'' \<or> c = CHR ''e'' \<or>
    c = CHR ''f'' \<or> c = CHR ''A'' \<or> c = CHR ''B'' \<or> c = CHR ''C'' \<or> c = CHR ''D'' \<or>
    c = CHR ''E'' \<or> c = CHR ''F''"
  using assms unfolding is_hex_digit_def
  by (simp only: list.set insert_iff empty_iff simp_thms)

lemma is_hex_digit_not_FF:
  assumes "is_hex_digit c"
  shows "hex_to_int c \<noteq> 0xFF"
  using is_hex_digit_cases [OF assms] by (elim disjE) (simp_all add: hex_digit_values)

lemma is_hex_digit_code:
  "is_hex_digit c \<longleftrightarrow>
     (of_char c :: nat) \<in>
       {48, 49, 50, 51, 52, 53, 54, 55, 56, 57, 97, 98, 99, 100, 101, 102, 65, 66, 67, 68, 69, 70}"
proof -
  have "is_hex_digit c \<longleftrightarrow> (of_char c :: nat) \<in> of_char ` set ''0123456789abcdefABCDEF''"
    unfolding is_hex_digit_def by (rule inj_image_mem_iff [OF inj_of_char, symmetric])
  also have "(of_char ` set ''0123456789abcdefABCDEF'' :: nat set) =
      {48, 49, 50, 51, 52, 53, 54, 55, 56, 57, 97, 98, 99, 100, 101, 102, 65, 66, 67, 68, 69, 70}"
    by simp
  finally show ?thesis .
qed

lemma not_hex_digit_FF:
  assumes "\<not> is_hex_digit c"
  shows "hex_to_int c = 0xFF"
proof -
  define n where "n = (of_char c :: nat)"
  from assms have "n \<notin>
      {48, 49, 50, 51, 52, 53, 54, 55, 56, 57, 97, 98, 99, 100, 101, 102, 65, 66, 67, 68, 69, 70}"
    by (simp only: is_hex_digit_code n_def not_False_eq_True)
  then have "\<not> (48 \<le> n \<and> n \<le> 57)" and "\<not> (97 \<le> n \<and> n \<le> 102)"
      and "\<not> (65 \<le> n \<and> n \<le> 70)"
    by (simp_all only: insert_iff empty_iff simp_thms de_Morgan_disj) arith+
  moreover have "(of_char CHR ''0'' :: nat) = 48" "(of_char CHR ''9'' :: nat) = 57"
    "(of_char CHR ''a'' :: nat) = 97" "(of_char CHR ''f'' :: nat) = 102"
    "(of_char CHR ''A'' :: nat) = 65" "(of_char CHR ''F'' :: nat) = 70"
    by simp_all
  ultimately show ?thesis
    by (simp only: hex_to_int_def Let_def n_def [symmetric] if_False)
qed

lemma hex_to_int_FF_iff: "hex_to_int c = 0xFF \<longleftrightarrow> \<not> is_hex_digit c"
  using not_hex_digit_FF [of c] is_hex_digit_not_FF [of c] by blast

lemma variant_bits_iff:
  assumes "is_hex_digit c"
  shows "drop_bit 2 (hex_to_int c AND 0b1100) = VARIANT \<longleftrightarrow> c \<in> set ''89abAB''"
  using is_hex_digit_cases [OF assms]
  by (elim disjE) (simp_all add: hex_digit_values VARIANT_def)

lemma variant_check:
  "is_hex_digit c \<Longrightarrow>
     (drop_bit 2 (hex_to_int c AND 0b1100) \<noteq> VARIANT) = (c \<notin> set ''89abAB'')"
  using variant_bits_iff [of c] by blast

lemma hex_to_int_HEX_CHARS:
  fixes n :: u8
  assumes "n < 16"
  shows "hex_to_int (HEX_CHARS ! unat n) = n"
  using nibble_cases [OF assms] by (auto simp: hex_to_int_def HEX_CHARS_def)

lemma hex_to_int_hi: "hex_to_int (hex_hi b) = drop_bit 4 b AND 0x0F"
  unfolding hex_hi_def by (rule hex_to_int_HEX_CHARS [OF hi_nibble_less])

lemma hex_to_int_lo: "hex_to_int (hex_lo b) = b AND 0x0F"
  unfolding hex_lo_def by (rule hex_to_int_HEX_CHARS [OF lo_nibble_less])

lemma hi_version:
  assumes "drop_bit 4 (b :: u8) AND 0b1111 = VERSION"
  shows "hex_hi b = CHR ''7''"
  using assms by (simp add: hex_hi_def VERSION_def HEX_CHARS_def)

section \<open>\<open>to_string\<close> and the decoding loop on written-out arrays\<close>

lemma to_string_hyphens:
  "to_string [b0, b1, b2, b3, b4, b5, b6, b7, b8, b9, b10, b11, b12, b13, b14, b15] True =
     [hex_hi b0, hex_lo b0, hex_hi b1, hex_lo b1, hex_hi b2, hex_lo b2, hex_hi b3, hex_lo b3,
      CHR ''-'', hex_hi b4, hex_lo b4, hex_hi b5, hex_lo b5,
      CHR ''-'', hex_hi b6, hex_lo b6, hex_hi b7, hex_lo b7,
      CHR ''-'', hex_hi b8, hex_lo b8, hex_hi b9, hex_lo b9,
      CHR ''-'', hex_hi b10, hex_lo b10, hex_hi b11, hex_lo b11, hex_hi b12, hex_lo b12,
      hex_hi b13, hex_lo b13, hex_hi b14, hex_lo b14, hex_hi b15, hex_lo b15]"
  by (simp add: to_string_def get_bytes_def hex_hi_def hex_lo_def eval_nat_numeral)

lemma to_string_plain:
  "to_string [b0, b1, b2, b3, b4, b5, b6, b7, b8, b9, b10, b11, b12, b13, b14, b15] False =
     [hex_hi b0, hex_lo b0, hex_hi b1, hex_lo b1, hex_hi b2, hex_lo b2, hex_hi b3, hex_lo b3,
      hex_hi b4, hex_lo b4, hex_hi b5, hex_lo b5,
      hex_hi b6, hex_lo b6, hex_hi b7, hex_lo b7,
      hex_hi b8, hex_lo b8, hex_hi b9, hex_lo b9,
      hex_hi b10, hex_lo b10, hex_hi b11, hex_lo b11, hex_hi b12, hex_lo b12,
      hex_hi b13, hex_lo b13, hex_hi b14, hex_lo b14, hex_hi b15, hex_lo b15]"
  by (simp add: to_string_def get_bytes_def hex_hi_def hex_lo_def eval_nat_numeral)

lemma parse_to_string_hyphens:
  assumes "valid_uuid u"
  shows "parse (to_string u True) = Inr u"
proof -
  from assms have "length u = 16" by (simp add: valid_uuid_def)
  then obtain b0 b1 b2 b3 b4 b5 b6 b7 b8 b9 b10 b11 b12 b13 b14 b15
    where u: "u = [b0, b1, b2, b3, b4, b5, b6, b7, b8, b9, b10, b11, b12, b13, b14, b15]"
    by (rule length16_explicit)
  from assms have "drop_bit 4 b6 AND 0b1111 = VERSION"
    by (simp add: u valid_uuid_def version_of_def)
  then have ver: "hex_hi b6 = CHR ''7''"
    by (rule hi_version)
  from assms have var: "drop_bit 6 b8 AND 3 = VARIANT"
    by (simp add: u valid_uuid_def variant_of_def)
  show ?thesis
    unfolding u to_string_hyphens
    by (simp add: parse_def parse_inner_def parse_checks_def uuidv7_zero_def uuidv7_ctor_def
        MAX_RAND_A_def MAX_RAND_B_def ver [symmetric] var VARIANT_AND_3
        hex_to_int_hi hex_to_int_lo hi_nibble_not_FF lo_nibble_not_FF nibbles_join_nf)
qed

lemma parse_to_string_plain:
  assumes "valid_uuid u"
  shows "parse (to_string u False) = Inr u"
proof -
  from assms have "length u = 16" by (simp add: valid_uuid_def)
  then obtain b0 b1 b2 b3 b4 b5 b6 b7 b8 b9 b10 b11 b12 b13 b14 b15
    where u: "u = [b0, b1, b2, b3, b4, b5, b6, b7, b8, b9, b10, b11, b12, b13, b14, b15]"
    by (rule length16_explicit)
  from assms have "drop_bit 4 b6 AND 0b1111 = VERSION"
    by (simp add: u valid_uuid_def version_of_def)
  then have ver: "hex_hi b6 = CHR ''7''"
    by (rule hi_version)
  from assms have var: "drop_bit 6 b8 AND 3 = VARIANT"
    by (simp add: u valid_uuid_def variant_of_def)
  show ?thesis
    unfolding u to_string_plain
    by (simp add: parse_def parse_inner_def parse_checks_def uuidv7_zero_def uuidv7_ctor_def
        MAX_RAND_A_def MAX_RAND_B_def ver [symmetric] var VARIANT_AND_3
        hex_to_int_hi hex_to_int_lo hi_nibble_not_FF lo_nibble_not_FF nibbles_join_nf)
qed

lemma parse_scenario_B:
  "parse ''01965347-e56d-7571-a1bb-6120dba3a645'' =
     Inr [0x01, 0x96, 0x53, 0x47, 0xe5, 0x6d, 0x75, 0x71, 0xa1, 0xbb, 0x61, 0x20, 0xdb, 0xa3, 0xa6, 0x45]"
  "parse ''01965347e56d7571a1bb6120dba3a645'' =
     Inr [0x01, 0x96, 0x53, 0x47, 0xe5, 0x6d, 0x75, 0x71, 0xa1, 0xbb, 0x61, 0x20, 0xdb, 0xa3, 0xa6, 0x45]"
  by (simp_all add: parse_def parse_inner_def parse_checks_def uuidv7_zero_def uuidv7_ctor_def
        MAX_RAND_A_def MAX_RAND_B_def VARIANT_def hex_digit_values)

lemma to_string_scenario_B:
  "to_string [0x01, 0x96, 0x53, 0x47, 0xe5, 0x6d, 0x75, 0x71, 0xa1, 0xbb, 0x61, 0x20, 0xdb, 0xa3, 0xa6, 0x45] True
     = ''01965347-e56d-7571-a1bb-6120dba3a645''"
  "to_string [0x01, 0x96, 0x53, 0x47, 0xe5, 0x6d, 0x75, 0x71, 0xa1, 0xbb, 0x61, 0x20, 0xdb, 0xa3, 0xa6, 0x45] False
     = ''01965347e56d7571a1bb6120dba3a645''"
  by (simp_all add: to_string_hyphens to_string_plain hex_hi_def hex_lo_def HEX_CHARS_def)

lemma valid_uuid_scenario_B:
  "valid_uuid [0x01, 0x96, 0x53, 0x47, 0xe5, 0x6d, 0x75, 0x71, 0xa1, 0xbb, 0x61, 0x20, 0xdb, 0xa3, 0xa6, 0x45]"
  by (simp add: valid_uuid_def version_of_def variant_of_def VERSION_def VARIANT_def)

section \<open>The order of the checks of \<open>parse_inner\<close>\<close>

lemma parse_loop_hyphens_fst:
  "fst (parse_loop [c0, c1, c2, c3, c4, c5, c6, c7, c8, c9, c10, c11, c12, c13, c14, c15, c16, c17,
    c18, c19, c20, c21, c22, c23, c24, c25, c26, c27, c28, c29, c30, c31, c32, c33, c34, c35]
      True 0 0 r) =
   (if list_all is_hex_digit [c0, c1, c2, c3, c4, c5, c6, c7, c9, c10, c11, c12, c14, c15, c16, c17,
      c19, c20, c21, c22, c24, c25, c26, c27, c28, c29, c30, c31, c32, c33, c34, c35]
    then Success else InvalidFormat)"
  by (simp add: hex_to_int_FF_iff Let_def)

lemma parse_loop_plain_fst:
  "fst (parse_loop [c0, c1, c2, c3, c4, c5, c6, c7, c8, c9, c10, c11, c12, c13, c14, c15, c16, c17,
    c18, c19, c20, c21, c22, c23, c24, c25, c26, c27, c28, c29, c30, c31] False 0 0 r) =
   (if list_all is_hex_digit [c0, c1, c2, c3, c4, c5, c6, c7, c8, c9, c10, c11, c12, c13, c14, c15,
      c16, c17, c18, c19, c20, c21, c22, c23, c24, c25, c26, c27, c28, c29, c30, c31]
    then Success else InvalidFormat)"
  by (simp add: hex_to_int_FF_iff Let_def)

lemma parse_checks_fst:
  "fst (parse_checks s h vi ri r) =
     (if s ! vi \<noteq> CHR ''7'' then InvalidVersion
      else if \<not> is_hex_digit (s ! ri) then InvalidFormat
      else if s ! ri \<notin> set ''89abAB'' then InvalidVariant
      else fst (parse_loop s h 0 0 r))"
  unfolding parse_checks_def Let_def hex_to_int_FF_iff
  using variant_check [of "s ! ri"] by (simp only: split: if_splits) auto

lemma parse_inner_check_order: "fst (parse_inner s r) = check_order s"
proof -
  consider (hy) "length s = 36" | (plain) "length s = 32" | (other) "length s \<noteq> 36" "length s \<noteq> 32"
    by blast
  then show ?thesis
  proof cases
    case hy
    then obtain c0 c1 c2 c3 c4 c5 c6 c7 c8 c9 c10 c11 c12 c13 c14 c15 c16 c17 c18 c19 c20 c21 c22 c23
        c24 c25 c26 c27 c28 c29 c30 c31 c32 c33 c34 c35
      where s: "s = [c0, c1, c2, c3, c4, c5, c6, c7, c8, c9, c10, c11, c12, c13, c14, c15, c16, c17,
        c18, c19, c20, c21, c22, c23, c24, c25, c26, c27, c28, c29, c30, c31, c32, c33, c34, c35]"
      by (rule length36_explicit)
    show ?thesis
      unfolding s parse_inner_def check_order_def first_check_ok_def hyphens_ok_def version_position_def
        variant_position_def hex_positions_def all_hex_def
      by (simp add: parse_checks_fst parse_loop_hyphens_fst upt_0_8 if_distrib [of fst]
          del: parse_loop.simps)
  next
    case plain
    then obtain c0 c1 c2 c3 c4 c5 c6 c7 c8 c9 c10 c11 c12 c13 c14 c15 c16 c17 c18 c19 c20 c21 c22 c23
        c24 c25 c26 c27 c28 c29 c30 c31
      where s: "s = [c0, c1, c2, c3, c4, c5, c6, c7, c8, c9, c10, c11, c12, c13, c14, c15, c16, c17,
        c18, c19, c20, c21, c22, c23, c24, c25, c26, c27, c28, c29, c30, c31]"
      by (rule length32_explicit)
    show ?thesis
      unfolding s parse_inner_def check_order_def first_check_ok_def hyphens_ok_def version_position_def
        variant_position_def hex_positions_def all_hex_def
      by (simp add: parse_checks_fst parse_loop_plain_fst upt_0_32 if_distrib [of fst]
          del: parse_loop.simps)
  next
    case other
    then show ?thesis
      by (simp add: parse_inner_def check_order_def first_check_ok_def)
  qed
qed

lemma parse_by_check_order:
  "parse s =
     (case check_order s of
        Success \<Rightarrow> Inr (snd (parse_inner s uuidv7_zero))
      | InvalidVersion \<Rightarrow> Inl version_error
      | InvalidVariant \<Rightarrow> Inl variant_error
      | InvalidFormat \<Rightarrow> Inl format_error)"
  using parse_inner_check_order [of s uuidv7_zero]
  by (cases "parse_inner s uuidv7_zero")
    (simp add: parse_def version_error_def variant_error_def format_error_def
      split: ParseResult.splits)

lemma try_parse_by_check_order:
  "try_parse s =
     (case check_order s of
        Success \<Rightarrow> Some (snd (parse_inner s uuidv7_zero))
      | _ \<Rightarrow> None)"
  using parse_inner_check_order [of s uuidv7_zero]
  by (cases "parse_inner s uuidv7_zero") (simp add: try_parse_def split: ParseResult.splits)

lemma all_hex_no_stray_hyphens:
  assumes "all_hex s"
  shows "no_stray_hyphens s"
proof -
  have "is_hex_digit c \<Longrightarrow> c \<noteq> CHR ''-''" for c
    by (auto simp: is_hex_digit_def)
  with assms show ?thesis
    unfolding all_hex_def no_stray_hyphens_def list_all_iff by blast
qed

lemma layout_ok_first_check: "layout_ok s \<Longrightarrow> first_check_ok s"
  by (auto simp: layout_ok_def first_check_ok_def)

lemma layout_ok_iff: "layout_ok s \<longleftrightarrow> first_check_ok s \<and> no_stray_hyphens s"
  by (auto simp: layout_ok_def first_check_ok_def)

lemma classify_check_order:
  assumes "layout_ok s \<or> \<not> first_check_ok s"
  shows "classify s = check_order s"
  using assms layout_ok_first_check [of s] by (auto simp: classify_def check_order_def)

lemma copy_loop_16:
  assumes "length src = 16"
  shows "copy_loop src 0 (replicate 16 0) = src"
proof -
  from assms obtain b0 b1 b2 b3 b4 b5 b6 b7 b8 b9 b10 b11 b12 b13 b14 b15
    where "src = [b0, b1, b2, b3, b4, b5, b6, b7, b8, b9, b10, b11, b12, b13, b14, b15]"
    by (rule length16_explicit)
  then show ?thesis by (simp add: eval_nat_numeral)
qed

section \<open>Arithmetic of single bytes\<close>

lemma unat_u8_bound: "unat (b :: u8) < 256"
  using unsigned_less [of b, where ?'a = nat] by simp

lemma unat_low6: "unat ((b :: u8) AND 0x3F) = unat b mod 64"
proof -
  have "unat (b AND 0x3F) = take_bit 6 (unat b)"
    by (simp only: mask_3F unsigned_take_bit_eq)
  also have "\<dots> = unat b mod 64"
    by (simp add: take_bit_eq_mod)
  finally show ?thesis .
qed

lemma unat_low4: "unat ((b :: u8) AND 0x0F) = unat b mod 16"
proof -
  have "unat (b AND 0x0F) = take_bit 4 (unat b)"
    by (simp only: mask_0F unsigned_take_bit_eq)
  also have "\<dots> = unat b mod 16"
    by (simp add: take_bit_eq_mod)
  finally show ?thesis .
qed

lemma unat_drop6: "unat (drop_bit 6 (b :: u8)) = unat b div 64"
proof -
  have "unat (drop_bit 6 b) = drop_bit 6 (unat b)"
    by (rule unat_drop_bit_eq)
  also have "\<dots> = unat b div 64"
    by (simp add: drop_bit_eq_div)
  finally show ?thesis .
qed

lemma unat_drop4: "unat (drop_bit 4 (b :: u8)) = unat b div 16"
proof -
  have "unat (drop_bit 4 b) = drop_bit 4 (unat b)"
    by (rule unat_drop_bit_eq)
  also have "\<dots> = unat b div 16"
    by (simp add: drop_bit_eq_div)
  finally show ?thesis .
qed

lemma unat_inc: "unat ((b :: u8) + 1) = (unat b + 1) mod 256"
  by (simp add: unat_word_ariths)

lemma byte_inc_less: "(b :: u8) < 0xFF \<Longrightarrow> b < b + 1"
  by (simp add: word_less_nat_alt unat_inc)

lemma byte_inc_unat: "(b :: u8) < 0xFF \<Longrightarrow> unat (b + 1) = unat b + 1"
  by (simp add: word_less_nat_alt unat_inc)

lemma byte_not_less_FF: "\<not> (b :: u8) < 0xFF \<Longrightarrow> unat b = 255"
  using unat_u8_bound [of b] by (simp add: word_less_nat_alt)

lemma low6_not_FF:
  assumes "(b :: u8) AND 0x3F < 0x3F"
  shows "b < 0xFF"
proof -
  have "unat b \<noteq> 255"
  proof
    assume "unat b = 255"
    then have "unat (b AND 0x3F) = 63" by (simp add: unat_low6)
    with assms show False by (simp add: word_less_nat_alt)
  qed
  with unat_u8_bound [of b] show ?thesis by (simp add: word_less_nat_alt)
qed

lemma low4_not_FF:
  assumes "(b :: u8) AND 0x0F < 0x0F"
  shows "b < 0xFF"
proof -
  have "unat b \<noteq> 255"
  proof
    assume "unat b = 255"
    then have "unat (b AND 0x0F) = 15" by (simp add: unat_low4)
    with assms show False by (simp add: word_less_nat_alt)
  qed
  with unat_u8_bound [of b] show ?thesis by (simp add: word_less_nat_alt)
qed

lemma low6_inc_unat:
  assumes "(b :: u8) AND 0x3F < 0x3F"
  shows "unat ((b + 1) AND 0x3F) = unat (b AND 0x3F) + 1"
proof -
  from assms have "unat b mod 64 < 63" by (simp add: word_less_nat_alt unat_low6)
  then have "Suc (unat b) mod 64 = Suc (unat b mod 64)" by (simp add: mod_Suc)
  then show ?thesis
    by (simp add: unat_low6 byte_inc_unat [OF low6_not_FF [OF assms]])
qed

lemma low6_inc_variant:
  assumes "(b :: u8) AND 0x3F < 0x3F"
  shows "drop_bit 6 (b + 1) AND 3 = drop_bit 6 b AND 3"
proof -
  from assms have "unat b mod 64 < 63" by (simp add: word_less_nat_alt unat_low6)
  then have "Suc (unat b) div 64 = unat b div 64" by (simp add: div_Suc mod_Suc)
  then have "unat (drop_bit 6 (b + 1)) = unat (drop_bit 6 b)"
    by (simp add: unat_drop6 byte_inc_unat [OF low6_not_FF [OF assms]])
  then have "drop_bit 6 (b + 1) = drop_bit 6 b" by (simp add: word_unat_eq_iff)
  then show ?thesis by simp
qed

lemma low6_not_less: "\<not> (b :: u8) AND 0x3F < 0x3F \<Longrightarrow> unat (b AND 0x3F) = 63"
proof -
  assume "\<not> b AND 0x3F < 0x3F"
  then have "63 \<le> unat b mod 64" by (simp add: word_less_nat_alt unat_low6)
  moreover have "unat b mod 64 < 64" by simp
  ultimately show ?thesis by (simp add: unat_low6)
qed

lemma low4_inc_unat:
  assumes "(b :: u8) AND 0x0F < 0x0F"
  shows "unat ((b + 1) AND 0x0F) = unat (b AND 0x0F) + 1"
proof -
  from assms have "unat b mod 16 < 15" by (simp add: word_less_nat_alt unat_low4)
  then have "Suc (unat b) mod 16 = Suc (unat b mod 16)" by (simp add: mod_Suc)
  then show ?thesis
    by (simp add: unat_low4 byte_inc_unat [OF low4_not_FF [OF assms]])
qed

lemma low4_inc_version:
  assumes "(b :: u8) AND 0x0F < 0x0F"
  shows "drop_bit 4 (b + 1) AND 0x0F = drop_bit 4 b AND 0x0F"
proof -
  from assms have "unat b mod 16 < 15" by (simp add: word_less_nat_alt unat_low4)
  then have "Suc (unat b) div 16 = unat b div 16" by (simp add: div_Suc mod_Suc)
  then have "unat (drop_bit 4 (b + 1)) = unat (drop_bit 4 b)"
    by (simp add: unat_drop4 byte_inc_unat [OF low4_not_FF [OF assms]])
  then have "drop_bit 4 (b + 1) = drop_bit 4 b" by (simp add: word_unat_eq_iff)
  then show ?thesis by simp
qed

lemma low4_not_less: "\<not> (b :: u8) AND 0x0F < 0x0F \<Longrightarrow> unat (b AND 0x0F) = 15"
proof -
  assume "\<not> b AND 0x0F < 0x0F"
  then have "15 \<le> unat b mod 16" by (simp add: word_less_nat_alt unat_low4)
  moreover have "unat b mod 16 < 16" by simp
  ultimately show ?thesis by (simp add: unat_low4)
qed

section \<open>Big-endian numbers and the two comparisons\<close>

lemma foldl_be_acc:
  "foldl (\<lambda>acc b. acc * 256 + unat (b :: u8)) a bs =
     a * 256 ^ length bs + foldl (\<lambda>acc b. acc * 256 + unat b) 0 bs"
proof (induction bs arbitrary: a)
  case Nil
  then show ?case by simp
next
  case (Cons b bs)
  have 1: "foldl (\<lambda>acc b. acc * 256 + unat b) (a * 256 + unat b) bs =
      (a * 256 + unat b) * 256 ^ length bs + foldl (\<lambda>acc b. acc * 256 + unat b) 0 bs"
    by (rule Cons.IH)
  have 2: "foldl (\<lambda>acc b. acc * 256 + unat b) (unat b) bs =
      unat b * 256 ^ length bs + foldl (\<lambda>acc b. acc * 256 + unat b) 0 bs"
    by (rule Cons.IH)
  show ?case
    by (simp add: 1 2 add_mult_distrib)
qed

lemma be_nat_Nil: "be_nat [] = 0"
  by (simp add: be_nat_def)

lemma be_nat_Cons: "be_nat (b # bs) = unat b * 256 ^ length bs + be_nat bs"
  unfolding be_nat_def using foldl_be_acc [of "unat b" bs] by simp

lemma be_nat_less: "be_nat bs < 256 ^ length bs"
proof (induction bs)
  case Nil
  then show ?case by (simp add: be_nat_Nil)
next
  case (Cons b bs)
  have "unat b * 256 ^ length bs + be_nat bs < (unat b + 1) * 256 ^ length bs"
    using Cons.IH by (simp add: algebra_simps)
  also have "\<dots> \<le> 256 * 256 ^ length bs"
    using unat_u8_bound [of b] by (intro mult_right_mono) simp_all
  finally show ?case by (simp add: be_nat_Cons)
qed

lemma be_nat_Cons_less_iff:
  assumes "length xs = length ys"
  shows "be_nat (x # xs) < be_nat (y # ys) \<longleftrightarrow> x < y \<or> (x = y \<and> be_nat xs < be_nat ys)"
proof -
  let ?p = "256 ^ length xs :: nat"
  have bx: "be_nat xs < ?p" by (rule be_nat_less)
  have by': "be_nat ys < ?p" using be_nat_less [of ys] assms by simp
  consider "unat x < unat y" | "unat x = unat y" | "unat y < unat x" by linarith
  then show ?thesis
  proof cases
    case 1
    then have "(unat x + 1) * ?p \<le> unat y * ?p" by (intro mult_right_mono) simp_all
    then have "unat x * ?p + be_nat xs < unat y * ?p + be_nat ys"
      using bx by (simp add: algebra_simps)
    with 1 show ?thesis by (simp add: be_nat_Cons assms [symmetric] word_less_nat_alt)
  next
    case 2
    then have "x = y" by (simp add: word_unat_eq_iff)
    then show ?thesis by (simp add: be_nat_Cons assms [symmetric])
  next
    case 3
    then have "(unat y + 1) * ?p \<le> unat x * ?p" by (intro mult_right_mono) simp_all
    then have "unat y * ?p + be_nat ys < unat x * ?p + be_nat xs"
      using by' by (simp add: algebra_simps)
    with 3 show ?thesis
      by (auto simp: be_nat_Cons assms [symmetric] word_less_nat_alt word_unat_eq_iff)
  qed
qed

lemma memcmp_less_iff:
  assumes "length xs = length ys"
  shows "memcmp xs ys < 0 \<longleftrightarrow> be_nat xs < be_nat ys"
  using assms
proof (induction xs ys rule: list_induct2)
  case Nil
  then show ?case by (simp add: be_nat_Nil)
next
  case (Cons x xs y ys)
  then show ?case
    by (auto simp: be_nat_Cons_less_iff)
qed

lemma memcmp_uuid_less:
  assumes "length xs = length ys" and "memcmp xs ys < 0"
  shows "uuid_less (xs @ a) (ys @ b)"
  using assms
proof (induction xs ys rule: list_induct2)
  case Nil
  then show ?case by simp
next
  case (Cons x xs y ys)
  then show ?case
    by (auto split: if_splits)
qed

lemma uuid_less_trans:
  "uuid_less a b \<Longrightarrow> uuid_less b c \<Longrightarrow> uuid_less a c"
proof (induction a b arbitrary: c rule: uuid_less.induct)
  case 1
  then show ?case by simp
next
  case (2 y ys)
  then show ?case by (cases c) simp_all
next
  case (3 x xs)
  then show ?case by simp
next
  case (4 x xs y ys)
  then show ?case
    by (cases c) (auto simp: not_less)
qed

lemma uuid_less_irrefl: "\<not> uuid_less a a"
  by (induction a) simp_all

section \<open>The clock reading as six bytes\<close>

lemma millis_byte:
  assumes "k \<le> 56"
  shows "(ucast (signed_drop_bit k (m :: u64)) :: u8) = ucast (drop_bit k m)"
  using assms by (intro bit_word_eqI) (auto simp: bit_simps)

lemma millis_byte_low: "(ucast ((m :: 'a::len word) AND 0xFF) :: u8) = ucast m"
  by (rule bit_word_eqI) (auto simp: bit_simps mask_FF)

lemma millis_loop_numeral:
  "millis_loop (numeral n) millis bs =
     millis_loop (pred_numeral n) (signed_drop_bit 8 millis)
       (bs[pred_numeral n := ucast (millis AND 0xFF)])"
  by (simp add: numeral_eq_Suc)

lemma replicate_6: "replicate 6 x = [x, x, x, x, x, x]"
  by (simp add: numeral_eq_Suc)

lemma millis_bytes_explicit:
  "millis_bytes_of m =
     [ucast (drop_bit 40 m), ucast (drop_bit 32 m), ucast (drop_bit 24 m),
      ucast (drop_bit 16 m), ucast (drop_bit 8 m), ucast m]"
  unfolding millis_bytes_of_def replicate_6
  by (simp add: millis_loop_numeral millis_byte millis_byte_low)

lemma unat_ucast_drop:
  "unat (ucast (drop_bit k (w :: 'a::len word)) :: u8) = unat w div 2 ^ k mod 256"
proof -
  have "unat (ucast (drop_bit k w) :: u8) = take_bit 8 (unat (drop_bit k w))"
    by (simp add: unsigned_ucast_eq)
  also have "\<dots> = unat (drop_bit k w) mod 256"
    by (simp add: take_bit_eq_mod)
  also have "unat (drop_bit k w) = drop_bit k (unat w)"
    by (rule unat_drop_bit_eq)
  also have "\<dots> = unat w div 2 ^ k"
    by (simp add: drop_bit_eq_div)
  finally show ?thesis .
qed

lemma unat_ucast_byte: "unat (ucast (w :: 'a::len word) :: u8) = unat w mod 256"
  using unat_ucast_drop [of 0 w] by simp

lemma split_top_byte: "(n :: nat) mod (2 ^ k * 256) = (n div 2 ^ k mod 256) * 2 ^ k + n mod 2 ^ k"
  by (simp add: mod_mult2_eq)

lemma be_nat_6:
  "be_nat [a0, a1, a2, a3, a4, a5] =
     unat a0 * 2 ^ 40 + unat a1 * 2 ^ 32 + unat a2 * 2 ^ 24 + unat a3 * 2 ^ 16 + unat a4 * 2 ^ 8 + unat a5"
  by (simp add: be_nat_def)

lemma be_nat_7:
  "be_nat [a0, a1, a2, a3, a4, a5, a6] =
     unat a0 * 2 ^ 48 + unat a1 * 2 ^ 40 + unat a2 * 2 ^ 32 + unat a3 * 2 ^ 24 + unat a4 * 2 ^ 16 +
     unat a5 * 2 ^ 8 + unat a6"
  by (simp add: be_nat_def)

lemma six_bytes_mod:
  "(n div 2 ^ 40 mod 256) * 2 ^ 40 + (n div 2 ^ 32 mod 256) * 2 ^ 32 + (n div 2 ^ 24 mod 256) * 2 ^ 24 +
   (n div 2 ^ 16 mod 256) * 2 ^ 16 + (n div 2 ^ 8 mod 256) * 2 ^ 8 + n mod 256 = (n :: nat) mod 2 ^ 48"
proof -
  have "n mod 2 ^ 48 = (n div 2 ^ 40 mod 256) * 2 ^ 40 + n mod 2 ^ 40"
    using split_top_byte [of n 40] by simp
  also have "n mod 2 ^ 40 = (n div 2 ^ 32 mod 256) * 2 ^ 32 + n mod 2 ^ 32"
    using split_top_byte [of n 32] by simp
  also have "n mod 2 ^ 32 = (n div 2 ^ 24 mod 256) * 2 ^ 24 + n mod 2 ^ 24"
    using split_top_byte [of n 24] by simp
  also have "n mod 2 ^ 24 = (n div 2 ^ 16 mod 256) * 2 ^ 16 + n mod 2 ^ 16"
    using split_top_byte [of n 16] by simp
  also have "n mod 2 ^ 16 = (n div 2 ^ 8 mod 256) * 2 ^ 8 + n mod 2 ^ 8"
    using split_top_byte [of n 8] by simp
  finally show ?thesis by simp
qed

lemma be_nat_millis_bytes: "be_nat (millis_bytes_of m) = unat m mod 2 ^ 48"
proof -
  have "be_nat (millis_bytes_of m) =
      unat (ucast (drop_bit 40 m) :: u8) * 2 ^ 40 + unat (ucast (drop_bit 32 m) :: u8) * 2 ^ 32 +
      unat (ucast (drop_bit 24 m) :: u8) * 2 ^ 24 + unat (ucast (drop_bit 16 m) :: u8) * 2 ^ 16 +
      unat (ucast (drop_bit 8 m) :: u8) * 2 ^ 8 + unat (ucast m :: u8)"
    by (simp only: millis_bytes_explicit be_nat_6)
  also have "\<dots> =
      (unat m div 2 ^ 40 mod 256) * 2 ^ 40 + (unat m div 2 ^ 32 mod 256) * 2 ^ 32 +
      (unat m div 2 ^ 24 mod 256) * 2 ^ 24 + (unat m div 2 ^ 16 mod 256) * 2 ^ 16 +
      (unat m div 2 ^ 8 mod 256) * 2 ^ 8 + unat m mod 256"
    by (simp only: unat_ucast_drop [of _ m] unat_ucast_byte [of m])
  also have "\<dots> = unat m mod 2 ^ 48"
    by (rule six_bytes_mod)
  finally show ?thesis .
qed

lemma length_millis_bytes: "length (millis_bytes_of m) = 6"
  by (simp add: millis_bytes_explicit)

text \<open>The comparison of \<open>generate\<close> is the comparison of the two timestamps.\<close>

lemma clock_ahead_iff:
  assumes "length d = 16"
  shows "memcmp (take 6 d) (take 6 (millis_bytes_of m)) < 0 \<longleftrightarrow> unix_ts_ms_of d < unat m mod 2 ^ 48"
proof -
  have "length (take 6 d) = length (millis_bytes_of m)"
    using assms by (simp add: length_millis_bytes)
  then have "memcmp (take 6 d) (millis_bytes_of m) < 0 \<longleftrightarrow> be_nat (take 6 d) < be_nat (millis_bytes_of m)"
    by (rule memcmp_less_iff)
  then show ?thesis
    by (simp add: unix_ts_ms_of_def be_nat_millis_bytes length_millis_bytes)
qed

section \<open>The two branches of \<open>generate\<close> on written-out arrays\<close>

lemma memcpy_numeral:
  "memcpy dst doff src soff (numeral n) =
     memcpy (dst[doff := src ! soff]) (doff + 1) src (soff + 1) (pred_numeral n)"
  by (simp add: numeral_eq_Suc)

lemma fresh_branch_explicit:
  "fresh_branch [b0, b1, b2, b3, b4, b5, b6, b7, b8, b9, b10, b11, b12, b13, b14, b15]
      [m0, m1, m2, m3, m4, m5] rand =
     [m0, m1, m2, m3, m4, m5,
      (drop_bit 4 (rand ! 0) AND 0x0F) OR 0x70, rand ! 1,
      (drop_bit 2 (rand ! 2) AND 0x3F) OR 0x80, rand ! 3, rand ! 4, rand ! 5, rand ! 6,
      rand ! 7, rand ! 8, rand ! 9]"
  by (simp add: fresh_branch_def memcpy_numeral VERSION_def VARIANT_def)

lemma while_loop_explicit:
  "while_loop [b0, b1, b2, b3, b4, b5, b6, b7, b8, b9, b10, b11, b12, b13, b14, b15] 15 =
    (if b15 < 0xFF then ([b0, b1, b2, b3, b4, b5, b6, b7, b8, b9, b10, b11, b12, b13, b14, b15 + 1], 0)
     else if b14 < 0xFF then ([b0, b1, b2, b3, b4, b5, b6, b7, b8, b9, b10, b11, b12, b13, b14 + 1, 0], 0)
     else if b13 < 0xFF then ([b0, b1, b2, b3, b4, b5, b6, b7, b8, b9, b10, b11, b12, b13 + 1, 0, 0], 0)
     else if b12 < 0xFF then ([b0, b1, b2, b3, b4, b5, b6, b7, b8, b9, b10, b11, b12 + 1, 0, 0, 0], 0)
     else if b11 < 0xFF then ([b0, b1, b2, b3, b4, b5, b6, b7, b8, b9, b10, b11 + 1, 0, 0, 0, 0], 0)
     else if b10 < 0xFF then ([b0, b1, b2, b3, b4, b5, b6, b7, b8, b9, b10 + 1, 0, 0, 0, 0, 0], 0)
     else if b9 < 0xFF then ([b0, b1, b2, b3, b4, b5, b6, b7, b8, b9 + 1, 0, 0, 0, 0, 0, 0], 0)
     else ([b0, b1, b2, b3, b4, b5, b6, b7, b8, 0, 0, 0, 0, 0, 0, 0], 8))"
  by (simp add: eval_nat_numeral)

lemma do_block_explicit:
  "do_block [b0, b1, b2, b3, b4, b5, b6, b7, b8, b9, b10, b11, b12, b13, b14, b15] =
    (if b8 AND 0x3F < 0x3F
       then ([b0, b1, b2, b3, b4, b5, b6, b7, b8 + 1, b9, b10, b11, b12, b13, b14, b15], None)
     else if b7 < 0xFF
       then ([b0, b1, b2, b3, b4, b5, b6, b7 + 1, 0x80, b9, b10, b11, b12, b13, b14, b15], None)
     else if b6 AND 0x0F < 0x0F
       then ([b0, b1, b2, b3, b4, b5, b6 + 1, 0, 0x80, b9, b10, b11, b12, b13, b14, b15], None)
     else ([b0, b1, b2, b3, b4, b5, b6, 0, 0x80, b9, b10, b11, b12, b13, b14, b15],
        Some (sequence_overflow_error
          ''Too many UUIDs generated in the same millisecond; sequence counter overflowed.'')))"
  by (simp add: do_block_def VARIANT_def eval_nat_numeral)

lemma counter74_explicit:
  "counter74 [b0, b1, b2, b3, b4, b5, b6, b7, b8, b9, b10, b11, b12, b13, b14, b15] =
     (unat (b6 AND 0x0F) * 256 + unat b7) * 2 ^ 62 +
     (unat (b8 AND 0x3F) * 2 ^ 56 + be_nat [b9, b10, b11, b12, b13, b14, b15])"
  by (simp add: counter74_def rand_a_of_def rand_b_of_def)

lemma increment_success:
  assumes len: "length d = 16" and inc: "increment_branch d = (d', None)"
  shows "uuid_less d d'" and "length d' = 16" and "take 6 d' = take 6 d"
    and "counter74 d' = counter74 d + 1"
    and "version_of d' = version_of d"
    and "variant_of d = VARIANT \<Longrightarrow> variant_of d' = VARIANT"
proof -
  from len obtain b0 b1 b2 b3 b4 b5 b6 b7 b8 b9 b10 b11 b12 b13 b14 b15
    where d: "d = [b0, b1, b2, b3, b4, b5, b6, b7, b8, b9, b10, b11, b12, b13, b14, b15]"
    by (rule length16_explicit)
  note inc' = inc [unfolded d increment_branch_def while_loop_explicit]
  show "length d' = 16"
    using inc' by (auto simp: do_block_explicit split: if_splits)
  show "take 6 d' = take 6 d"
    using inc' by (auto simp: d do_block_explicit split: if_splits)
  show "uuid_less d d'"
    using inc'
    by (auto simp: d do_block_explicit byte_inc_less low6_not_FF low4_not_FF split: if_splits)
  show "version_of d' = version_of d"
    using inc' by (auto simp: d do_block_explicit version_of_def low4_inc_version split: if_splits)
  show "variant_of d' = VARIANT" if "variant_of d = VARIANT"
    using inc' that
    by (auto simp: d do_block_explicit variant_of_def low6_inc_variant VARIANT_def split: if_splits)
  show "counter74 d' = counter74 d + 1"
    using inc'
    by (auto simp: d do_block_explicit counter74_explicit be_nat_7 byte_inc_unat byte_not_less_FF
      low6_inc_unat low6_not_less low4_inc_unat split: if_splits)
qed

lemma increment_overflow:
  assumes len: "length d = 16" and inc: "increment_branch d = (d', Some e)"
  shows "counter74 d = 2 ^ 74 - 1"
    and "e = sequence_overflow_error
          ''Too many UUIDs generated in the same millisecond; sequence counter overflowed.''"
    and "d' = (take 7 d) @ [0, 0x80, 0, 0, 0, 0, 0, 0, 0]"
    and "length d' = 16" and "version_of d' = version_of d" and "variant_of d' = VARIANT"
proof -
  from len obtain b0 b1 b2 b3 b4 b5 b6 b7 b8 b9 b10 b11 b12 b13 b14 b15
    where d: "d = [b0, b1, b2, b3, b4, b5, b6, b7, b8, b9, b10, b11, b12, b13, b14, b15]"
    by (rule length16_explicit)
  note inc' = inc [unfolded d increment_branch_def while_loop_explicit]
  show "counter74 d = 2 ^ 74 - 1"
    using inc'
    by (auto simp: d do_block_explicit counter74_explicit be_nat_7 byte_not_less_FF
      low6_not_less low4_not_less split: if_splits)
  show "e = sequence_overflow_error
          ''Too many UUIDs generated in the same millisecond; sequence counter overflowed.''"
    using inc' by (auto simp: do_block_explicit split: if_splits)
  show "d' = (take 7 d) @ [0, 0x80, 0, 0, 0, 0, 0, 0, 0]"
    using inc' by (auto simp: d do_block_explicit split: if_splits)
  show "length d' = 16"
    using inc' by (auto simp: do_block_explicit split: if_splits)
  show "version_of d' = version_of d"
    using inc' by (auto simp: d do_block_explicit version_of_def split: if_splits)
  show "variant_of d' = VARIANT"
    using inc' by (auto simp: d do_block_explicit variant_of_def VARIANT_def split: if_splits)
qed

lemma forced_version_low: "((x AND 0x0F) OR 0x70) AND 0x0F = (x :: u8) AND 0x0F"
proof -
  have c: "(0x70 :: u8) = push_bit 4 (mask 3)" by (simp add: mask_eq_exp_minus_1)
  show ?thesis
    unfolding mask_0F c by (rule bit_word_eqI) (auto simp: bit_simps)
qed

lemma forced_version_high: "drop_bit 4 (((x :: u8) AND 0x0F) OR 0x70) AND 0x0F = 7"
proof -
  have c: "(0x70 :: u8) = push_bit 4 (mask 3)" "(7 :: u8) = mask 3"
    by (simp_all add: mask_eq_exp_minus_1)
  show ?thesis
    unfolding mask_0F c by (rule bit_word_eqI) (auto simp: bit_simps)
qed

lemma forced_variant_low: "((x AND 0x3F) OR 0x80) AND 0x3F = (x :: u8) AND 0x3F"
proof -
  have c: "(0x80 :: u8) = push_bit 7 1" by simp
  show ?thesis
    unfolding mask_3F c by (rule bit_word_eqI) (auto simp: bit_simps)
qed

lemma forced_variant_high: "drop_bit 6 (((x :: u8) AND 0x3F) OR 0x80) AND 3 = 2"
proof -
  have c: "(0x80 :: u8) = push_bit 7 1" "(2 :: u8) = push_bit 1 1" by simp_all
  show ?thesis
    unfolding mask_3F mask_03 c by (rule bit_word_eqI) (auto simp: bit_simps)
qed

lemma unat_drop4_low4: "unat (drop_bit 4 (r :: u8) AND 0x0F) = unat r div 16"
  using unat_u8_bound [of r] by (simp add: unat_low4 unat_drop4)

lemma unat_drop2_low6: "unat (drop_bit 2 (r :: u8) AND 0x3F) = unat r div 4"
proof -
  have "unat (drop_bit 2 r) = drop_bit 2 (unat r)"
    by (rule unat_drop_bit_eq)
  also have "\<dots> = unat r div 4"
    by (simp add: drop_bit_eq_div)
  finally show ?thesis
    using unat_u8_bound [of r] by (simp add: unat_low6)
qed

section \<open>The constructor from timestamp and random fields\<close>

lemma ucast_low4: "(ucast ((w :: 'a::len word) AND 0x0F) :: u8) = ucast w AND 0x0F"
  unfolding mask_0F by (rule bit_word_eqI) (auto simp: bit_simps)

lemma ucast_low6: "(ucast ((w :: 'a::len word) AND 0x3F) :: u8) = ucast w AND 0x3F"
  unfolding mask_3F by (rule bit_word_eqI) (auto simp: bit_simps)

lemma seven_bytes_mod:
  "(n div 2 ^ 48 mod 256) * 2 ^ 48 + (n div 2 ^ 40 mod 256) * 2 ^ 40 + (n div 2 ^ 32 mod 256) * 2 ^ 32 +
   (n div 2 ^ 24 mod 256) * 2 ^ 24 + (n div 2 ^ 16 mod 256) * 2 ^ 16 + (n div 2 ^ 8 mod 256) * 2 ^ 8 +
   n mod 256 = (n :: nat) mod 2 ^ 56"
proof -
  have "n mod 2 ^ 56 = (n div 2 ^ 48 mod 256) * 2 ^ 48 + n mod 2 ^ 48"
    using split_top_byte [of n 48] by simp
  then show ?thesis
    using six_bytes_mod [of n] by simp
qed

lemma uuidv7_ctor_bytes:
  assumes "rand_a \<le> 0x0FFF" and "rand_b \<le> 0x3FFFFFFFFFFFFFFF"
  shows "uuidv7_ctor ts rand_a rand_b = Inr
        [ ucast (drop_bit 40 ts), ucast (drop_bit 32 ts), ucast (drop_bit 24 ts),
          ucast (drop_bit 16 ts), ucast (drop_bit 8 ts), ucast ts,
          (ucast (drop_bit 8 rand_a) AND 0x0F) OR 0x70, ucast rand_a,
          (ucast (drop_bit 56 rand_b) AND 0x3F) OR 0x80,
          ucast (drop_bit 48 rand_b), ucast (drop_bit 40 rand_b), ucast (drop_bit 32 rand_b),
          ucast (drop_bit 24 rand_b), ucast (drop_bit 16 rand_b), ucast (drop_bit 8 rand_b),
          ucast rand_b ]"
  using assms
  by (simp add: uuidv7_ctor_def MAX_RAND_A_def MAX_RAND_B_def VERSION_def VARIANT_def
      millis_byte_low ucast_low4 ucast_low6)

lemma uuidv7_ctor_fields:
  assumes a: "rand_a \<le> 0x0FFF" and b: "rand_b \<le> 0x3FFFFFFFFFFFFFFF"
    and d: "uuidv7_ctor ts rand_a rand_b = Inr d"
  shows "length d = 16" and "unix_ts_ms_of d = unat ts mod 2 ^ 48"
    and "version_of d = 7" and "variant_of d = 2"
    and "rand_a_of d = unat rand_a" and "rand_b_of d = unat rand_b"
proof -
  note dx = d [unfolded uuidv7_ctor_bytes [OF a b], simplified, symmetric]
  show "length d = 16" by (simp add: dx)
  show "version_of d = 7" by (simp add: dx version_of_def forced_version_high)
  show "variant_of d = 2" by (simp add: dx variant_of_def forced_variant_high)
  have "unix_ts_ms_of d =
      (unat ts div 2 ^ 40 mod 256) * 2 ^ 40 + (unat ts div 2 ^ 32 mod 256) * 2 ^ 32 +
      (unat ts div 2 ^ 24 mod 256) * 2 ^ 24 + (unat ts div 2 ^ 16 mod 256) * 2 ^ 16 +
      (unat ts div 2 ^ 8 mod 256) * 2 ^ 8 + unat ts mod 256"
    by (simp add: dx unix_ts_ms_of_def be_nat_6 unat_ucast_drop [of _ ts] unat_ucast_byte [of ts])
  then show "unix_ts_ms_of d = unat ts mod 2 ^ 48"
    by (simp only: six_bytes_mod)
  have na: "unat rand_a < 4096"
    using a by (simp add: word_le_nat_alt)
  have "rand_a_of d = (unat rand_a div 2 ^ 8 mod 256 mod 16) * 256 + unat rand_a mod 256"
    by (simp add: dx rand_a_of_def forced_version_low unat_low4 unat_ucast_drop [of _ rand_a]
        unat_ucast_byte [of rand_a])
  also have "unat rand_a div 2 ^ 8 mod 256 mod 16 = unat rand_a div 256"
    using na by simp
  finally show "rand_a_of d = unat rand_a"
    by simp
  have nb: "unat rand_b < 2 ^ 62"
    using b by (simp add: word_le_nat_alt)
  then have nb': "unat rand_b div 2 ^ 56 < 64"
    by simp
  have "rand_b_of d = (unat rand_b div 2 ^ 56 mod 256 mod 64) * 2 ^ 56 +
      ((unat rand_b div 2 ^ 48 mod 256) * 2 ^ 48 + (unat rand_b div 2 ^ 40 mod 256) * 2 ^ 40 +
       (unat rand_b div 2 ^ 32 mod 256) * 2 ^ 32 + (unat rand_b div 2 ^ 24 mod 256) * 2 ^ 24 +
       (unat rand_b div 2 ^ 16 mod 256) * 2 ^ 16 + (unat rand_b div 2 ^ 8 mod 256) * 2 ^ 8 +
       unat rand_b mod 256)"
    by (simp add: dx rand_b_of_def be_nat_7 forced_variant_low unat_low6
        unat_ucast_drop [of _ rand_b] unat_ucast_byte [of rand_b])
  also have "\<dots> = (unat rand_b div 2 ^ 56) * 2 ^ 56 + unat rand_b mod 2 ^ 56"
    using nb' by (simp only: seven_bytes_mod) simp
  finally show "rand_b_of d = unat rand_b"
    by simp
qed

section \<open>One call of \<open>generate\<close>\<close>

lemma length6_explicit:
  assumes "length (xs :: 'a list) = 6"
  obtains m0 m1 m2 m3 m4 m5 where "xs = [m0, m1, m2, m3, m4, m5]"
  using assms by (auto simp: eval_nat_numeral length_Suc_conv)

lemma fresh_branch_props:
  assumes len: "length stored = 16" and d: "d = fresh_branch stored (millis_bytes_of m) rand"
  shows "length d = 16" and "take 6 d = millis_bytes_of m"
    and "unix_ts_ms_of d = unat m mod 2 ^ 48"
    and "version_of d = 7" and "variant_of d = 2"
    and "rand_a_of d = (unat (rand ! 0) div 16) * 256 + unat (rand ! 1)"
    and "rand_b_of d = (unat (rand ! 2) div 4) * 2 ^ 56 +
          be_nat [rand ! 3, rand ! 4, rand ! 5, rand ! 6, rand ! 7, rand ! 8, rand ! 9]"
proof -
  from len obtain b0 b1 b2 b3 b4 b5 b6 b7 b8 b9 b10 b11 b12 b13 b14 b15
    where stored: "stored = [b0, b1, b2, b3, b4, b5, b6, b7, b8, b9, b10, b11, b12, b13, b14, b15]"
    by (rule length16_explicit)
  obtain m0 m1 m2 m3 m4 m5 where mb: "millis_bytes_of m = [m0, m1, m2, m3, m4, m5]"
    using length_millis_bytes [of m] by (rule length6_explicit)
  have dx: "d = [m0, m1, m2, m3, m4, m5,
      (drop_bit 4 (rand ! 0) AND 0x0F) OR 0x70, rand ! 1,
      (drop_bit 2 (rand ! 2) AND 0x3F) OR 0x80, rand ! 3, rand ! 4, rand ! 5, rand ! 6,
      rand ! 7, rand ! 8, rand ! 9]"
    unfolding d stored mb by (rule fresh_branch_explicit)
  show "length d = 16" by (simp add: dx)
  show t: "take 6 d = millis_bytes_of m" by (simp add: dx mb)
  show "unix_ts_ms_of d = unat m mod 2 ^ 48"
    unfolding unix_ts_ms_of_def t by (rule be_nat_millis_bytes)
  show "version_of d = 7"
    by (simp add: dx version_of_def forced_version_high)
  show "variant_of d = 2"
    by (simp add: dx variant_of_def forced_variant_high)
  show "rand_a_of d = (unat (rand ! 0) div 16) * 256 + unat (rand ! 1)"
    by (simp add: dx rand_a_of_def forced_version_low unat_drop4_low4)
  show "rand_b_of d = (unat (rand ! 2) div 4) * 2 ^ 56 +
          be_nat [rand ! 3, rand ! 4, rand ! 5, rand ! 6, rand ! 7, rand ! 8, rand ! 9]"
    by (simp add: dx rand_b_of_def forced_variant_low unat_drop2_low6)
qed

lemma generate_fresh:
  assumes "length stored = 16" and "unix_ts_ms_of stored < unat m mod 2 ^ 48"
  shows "generate gr m (stored, rs) =
     (case gr rs of
        (Inl e, rs1) \<Rightarrow> (Inl e, stored, rs1)
      | (Inr rand, rs1) \<Rightarrow>
          (Inr (fresh_branch stored (millis_bytes_of m) rand),
           fresh_branch stored (millis_bytes_of m) rand, rs1))"
  using assms clock_ahead_iff [of stored m]
  by (simp add: generate_def Let_def split: prod.splits sum.splits)

lemma generate_increment:
  assumes "length stored = 16" and "\<not> unix_ts_ms_of stored < unat m mod 2 ^ 48"
  shows "generate gr m (stored, rs) =
     (case increment_branch stored of
        (d, None) \<Rightarrow> (Inr d, d, rs)
      | (d, Some e) \<Rightarrow> (Inl e, d, rs))"
  using assms clock_ahead_iff [of stored m]
  by (simp add: generate_def Let_def)

lemma fresh_branch_greater:
  assumes len: "length stored = 16" and lt: "unix_ts_ms_of stored < unat m mod 2 ^ 48"
  shows "uuid_less stored (fresh_branch stored (millis_bytes_of m) rand)"
proof -
  let ?d = "fresh_branch stored (millis_bytes_of m) rand"
  have t: "take 6 ?d = millis_bytes_of m"
    using len by (rule fresh_branch_props(2)) simp
  have "memcmp (take 6 stored) (millis_bytes_of m) < 0"
    using clock_ahead_iff [OF len, of m] lt by (simp add: length_millis_bytes)
  moreover have "length (take 6 stored) = length (millis_bytes_of m)"
    using len by (simp add: length_millis_bytes)
  ultimately have "uuid_less (take 6 stored @ drop 6 stored) (millis_bytes_of m @ drop 6 ?d)"
    by (intro memcmp_uuid_less)
  moreover have "millis_bytes_of m @ drop 6 ?d = ?d"
    using append_take_drop_id [of 6 ?d] by (simp only: t)
  ultimately show ?thesis by simp
qed

text \<open>A call that returns a value stores that value, of sixteen bytes, above the one before.\<close>

lemma generate_step:
  assumes len: "length stored = 16" and gen: "generate gr m (stored, rs) = (Inr v, stored', rs')"
  shows "stored' = v" and "length v = 16" and "uuid_less stored v"
proof -
  have "stored' = v \<and> length v = 16 \<and> uuid_less stored v"
  proof (cases "unix_ts_ms_of stored < unat m mod 2 ^ 48")
    case True
    from gen obtain rand where v: "v = fresh_branch stored (millis_bytes_of m) rand" and "stored' = v"
      unfolding generate_fresh [OF len True]
      by (auto split: prod.splits sum.splits)
    then show ?thesis
      using fresh_branch_props(1) [OF len v] fresh_branch_greater [OF len True, of rand]
      by simp
  next
    case False
    from gen have inc: "increment_branch stored = (v, None)" and "stored' = v"
      unfolding generate_increment [OF len False]
      by (auto split: prod.splits option.splits)
    then show ?thesis
      using increment_success(1,2) [OF len inc] by simp
  qed
  then show "stored' = v" and "length v = 16" and "uuid_less stored v" by simp_all
qed

lemma generate_keeps_length:
  assumes len: "length stored = 16" and gen: "generate gr m (stored, rs) = (res, stored', rs')"
  shows "length stored' = 16"
proof (cases "unix_ts_ms_of stored < unat m mod 2 ^ 48")
  case True
  show ?thesis
    using gen fresh_branch_props(1) [OF len refl] len
    unfolding generate_fresh [OF len True]
    by (auto split: prod.splits sum.splits)
next
  case False
  show ?thesis
    using gen increment_success(2) [OF len] increment_overflow(4) [OF len]
    unfolding generate_increment [OF len False]
    by (auto split: prod.splits option.splits)
qed

lemma generate_keeps_valid:
  assumes val: "valid_uuid stored" and gen: "generate gr m (stored, rs) = (res, stored', rs')"
  shows "valid_uuid stored'"
proof -
  from val have len: "length stored = 16" by (simp add: valid_uuid_def)
  show ?thesis
  proof (cases "unix_ts_ms_of stored < unat m mod 2 ^ 48")
    case True
    show ?thesis
      using gen fresh_branch_props(1,4,5) [OF len refl] val
      unfolding generate_fresh [OF len True]
      by (auto simp: valid_uuid_def VERSION_def VARIANT_def split: prod.splits sum.splits)
  next
    case False
    show ?thesis
      using gen increment_success(2,5,6) [OF len] increment_overflow(4,5,6) [OF len] val
      unfolding generate_increment [OF len False]
      by (auto simp: valid_uuid_def split: prod.splits option.splits)
  qed
qed

lemma generate_seq_sorted:
  assumes "length stored = 16"
    and "generate_seq gr clock (stored, rs) = (results, s')"
    and "\<forall>r \<in> set results. \<exists>v. r = Inr v"
  shows "sorted_wrt uuid_less (stored # map projr results)"
  using assms
proof (induction clock arbitrary: stored rs results s')
  case Nil
  then show ?case by simp
next
  case (Cons m clock)
  obtain res stored1 rs1 where g: "generate gr m (stored, rs) = (res, stored1, rs1)"
    by (cases "generate gr m (stored, rs)") auto
  obtain rest s2 where q: "generate_seq gr clock (stored1, rs1) = (rest, s2)"
    by (cases "generate_seq gr clock (stored1, rs1)") auto
  from Cons.prems(2) g q have results: "results = res # rest"
    by simp
  with Cons.prems(3) obtain v where res: "res = Inr v"
    by auto
  from generate_step [OF Cons.prems(1) g [unfolded res]]
  have st: "stored1 = v" and len: "length v = 16" and less: "uuid_less stored v"
    by simp_all
  from Cons.prems(3) results have all: "\<forall>r \<in> set rest. \<exists>v. r = Inr v"
    by simp
  have sorted: "sorted_wrt uuid_less (v # map projr rest)"
    using Cons.IH [OF len q [unfolded st] all] .
  then have "\<forall>w \<in> set (map projr rest). uuid_less stored w"
    using less uuid_less_trans by auto
  with sorted less show ?case
    by (simp add: results res)
qed

lemma generate_seq_length:
  "generate_seq gr clock s = (results, s') \<Longrightarrow> length results = length clock"
proof (induction clock arbitrary: s results)
  case Nil
  then show ?case by simp
next
  case (Cons m clock)
  then show ?case
    by (auto split: prod.splits)
qed

lemma length10_explicit:
  assumes "length (xs :: 'a list) = 10"
  obtains r0 r1 r2 r3 r4 r5 r6 r7 r8 r9 where "xs = [r0, r1, r2, r3, r4, r5, r6, r7, r8, r9]"
  using assms by (auto simp: eval_nat_numeral length_Suc_conv)

lemma drop_3_of_10:
  assumes "length (rand :: 'a list) = 10"
  shows "drop 3 rand = [rand ! 3, rand ! 4, rand ! 5, rand ! 6, rand ! 7, rand ! 8, rand ! 9]"
proof -
  from assms obtain r0 r1 r2 r3 r4 r5 r6 r7 r8 r9
    where "rand = [r0, r1, r2, r3, r4, r5, r6, r7, r8, r9]"
    by (rule length10_explicit)
  then show ?thesis by simp
qed

section \<open>Parsing, formatting and import of raw bytes\<close>

text \<open>
  C5. A value with sixteen bytes, version 7 and variant \<open>0b10\<close> is parsed back from both
  of its string forms; the hyphenated and the plain string of the scenario parse to the
  same value, and that value is written back as each of the two strings, of 36 and 32
  characters, in lowercase.
\<close>

theorem parse_to_string_roundtrip:
  "(valid_uuid u \<longrightarrow> parse (to_string u True) = Inr u \<and> parse (to_string u False) = Inr u) \<and>
   (\<exists>v. parse ''01965347-e56d-7571-a1bb-6120dba3a645'' = Inr v \<and>
        parse ''01965347e56d7571a1bb6120dba3a645'' = Inr v \<and>
        to_string v True = ''01965347-e56d-7571-a1bb-6120dba3a645'' \<and>
        to_string v False = ''01965347e56d7571a1bb6120dba3a645'') \<and>
   length ''01965347-e56d-7571-a1bb-6120dba3a645'' = 36 \<and>
   length ''01965347e56d7571a1bb6120dba3a645'' = 32"
proof (intro conjI impI)
  assume "valid_uuid u"
  then show "parse (to_string u True) = Inr u" and "parse (to_string u False) = Inr u"
    by (rule parse_to_string_hyphens, rule parse_to_string_plain)
next
  show "\<exists>v. parse ''01965347-e56d-7571-a1bb-6120dba3a645'' = Inr v \<and>
        parse ''01965347e56d7571a1bb6120dba3a645'' = Inr v \<and>
        to_string v True = ''01965347-e56d-7571-a1bb-6120dba3a645'' \<and>
        to_string v False = ''01965347e56d7571a1bb6120dba3a645''"
    using parse_scenario_B to_string_scenario_B by blast
qed simp_all

theorem parse_to_string_roundtrip_witness:
  "valid_uuid [0x01, 0x96, 0x53, 0x47, 0xe5, 0x6d, 0x75, 0x71, 0xa1, 0xbb, 0x61, 0x20, 0xdb, 0xa3, 0xa6, 0x45] \<and>
   parse (to_string [0x01, 0x96, 0x53, 0x47, 0xe5, 0x6d, 0x75, 0x71, 0xa1, 0xbb, 0x61, 0x20, 0xdb, 0xa3, 0xa6, 0x45] True)
     = Inr [0x01, 0x96, 0x53, 0x47, 0xe5, 0x6d, 0x75, 0x71, 0xa1, 0xbb, 0x61, 0x20, 0xdb, 0xa3, 0xa6, 0x45] \<and>
   parse (to_string [0x01, 0x96, 0x53, 0x47, 0xe5, 0x6d, 0x75, 0x71, 0xa1, 0xbb, 0x61, 0x20, 0xdb, 0xa3, 0xa6, 0x45] False)
     = Inr [0x01, 0x96, 0x53, 0x47, 0xe5, 0x6d, 0x75, 0x71, 0xa1, 0xbb, 0x61, 0x20, 0xdb, 0xa3, 0xa6, 0x45]"
  using parse_to_string_roundtrip
    [of "[0x01, 0x96, 0x53, 0x47, 0xe5, 0x6d, 0x75, 0x71, 0xa1, 0xbb, 0x61, 0x20, 0xdb, 0xa3, 0xa6, 0x45]"]
    valid_uuid_scenario_B
  by blast

text \<open>
  C6, as the claim states it, fails: a misplaced hyphen is not always a format error. The
  string \<open>01965347-e56d-7571-a1bb-6120dba3\<close> has 32 characters and four hyphens, so it
  is neither of the two accepted layouts; \<open>parse\<close> makes no hyphen test on 32 characters,
  finds \<open>d\<close> at position 12 and throws the version error.
\<close>

theorem parse_plain_form_hyphens_version_error:
  "length ''01965347-e56d-7571-a1bb-6120dba3'' = 32 \<and>
   CHR ''-'' \<in> set ''01965347-e56d-7571-a1bb-6120dba3'' \<and>
   \<not> layout_ok ''01965347-e56d-7571-a1bb-6120dba3'' \<and>
   parse ''01965347-e56d-7571-a1bb-6120dba3'' = Inl version_error \<and>
   parse ''01965347-e56d-7571-a1bb-6120dba3'' \<noteq> Inl format_error"
  by (simp add: layout_ok_def no_stray_hyphens_def hex_positions_def upt_0_32
      parse_def parse_inner_def parse_checks_def version_error_def format_error_def)

text \<open>
  C6, amended. \<open>parse\<close> succeeds exactly on the two layouts, 36 characters with
  hyphens at 8, 13, 18 and 23 or 32 characters with no hyphens, whose version character
  is \<open>7\<close>, whose variant character has the top bits \<open>0b10\<close> and whose digits are all
  hexadecimal. A length other than 32 and 36, or 36 characters without a hyphen at 8, 13,
  18 or 23, is a format error. Past that first test, a version character other than
  \<open>7\<close> is a version error; with the version right, variant bits other than \<open>0b10\<close>
  are a variant error; with version and variant right, a character that is no hexadecimal
  digit is a format error, and a hyphen at a digit position, in either length, is such a
  character. The version-4 string of the scenario is a version error, which differs from
  the format error.
\<close>

theorem parse_forms_and_error_kinds:
  "((\<exists>u. parse s = Inr u) \<longleftrightarrow>
      layout_ok s \<and> s ! version_position s = CHR ''7'' \<and>
      s ! variant_position s \<in> set ''89abAB'' \<and> all_hex s) \<and>
   (\<not> first_check_ok s \<longrightarrow> parse s = Inl format_error) \<and>
   (first_check_ok s \<and> s ! version_position s \<noteq> CHR ''7'' \<longrightarrow> parse s = Inl version_error) \<and>
   (first_check_ok s \<and> s ! version_position s = CHR ''7'' \<and>
      is_hex_digit (s ! variant_position s) \<and>
      drop_bit 2 (hex_to_int (s ! variant_position s) AND 0b1100) \<noteq> VARIANT
      \<longrightarrow> parse s = Inl variant_error) \<and>
   (first_check_ok s \<and> s ! version_position s = CHR ''7'' \<and> \<not> all_hex s \<and>
      (is_hex_digit (s ! variant_position s) \<longrightarrow>
         drop_bit 2 (hex_to_int (s ! variant_position s) AND 0b1100) = VARIANT)
      \<longrightarrow> parse s = Inl format_error) \<and>
   (\<not> no_stray_hyphens s \<longrightarrow> \<not> all_hex s) \<and>
   parse ''75f50a24-995d-4606-bf3e-7f6c5b76c5c1'' = Inl version_error \<and>
   version_error \<noteq> format_error"
proof -
  have ex: "parse ''75f50a24-995d-4606-bf3e-7f6c5b76c5c1'' = Inl version_error"
    by (simp add: parse_def parse_inner_def parse_checks_def version_error_def)
  have hexv: "is_hex_digit c" if "c \<in> set ''89abAB''" for c
    using that by (auto simp: is_hex_digit_def)
  show ?thesis
    using hexv [of "s ! variant_position s"] variant_check [of "s ! variant_position s"]
      all_hex_no_stray_hyphens [of s]
    by (auto simp: ex parse_by_check_order [of s] check_order_def layout_ok_iff
        version_error_def variant_error_def format_error_def)
qed

theorem parse_forms_and_error_kinds_witness:
  "\<not> first_check_ok ''01965347-e56d-7571-a1bb-'' \<and>
   parse ''01965347-e56d-7571-a1bb-'' = Inl format_error \<and>
   \<not> first_check_ok ''0196534-7e56-d757-1a1b-b6120dba3a645'' \<and>
   parse ''0196534-7e56-d757-1a1b-b6120dba3a645'' = Inl format_error \<and>
   first_check_ok ''75f50a24-995d-4606-bf3e-7f6c5b76c5c1'' \<and>
   parse ''75f50a24-995d-4606-bf3e-7f6c5b76c5c1'' = Inl version_error \<and>
   first_check_ok ''01965347-e56d-7571-a1bb-6120dba3'' \<and>
   parse ''01965347-e56d-7571-a1bb-6120dba3'' = Inl version_error \<and>
   first_check_ok ''01965347-e56d-7571-01bb-6120dba3a645'' \<and>
   parse ''01965347-e56d-7571-01bb-6120dba3a645'' = Inl variant_error \<and>
   first_check_ok ''01965347-e56d-7571-a1bb-6120dba3a64Z'' \<and>
   \<not> all_hex ''01965347-e56d-7571-a1bb-6120dba3a64Z'' \<and>
   parse ''01965347-e56d-7571-a1bb-6120dba3a64Z'' = Inl format_error \<and>
   first_check_ok ''01965347e56d7571a1bb6120dba3a6-5'' \<and>
   \<not> no_stray_hyphens ''01965347e56d7571a1bb6120dba3a6-5'' \<and>
   \<not> all_hex ''01965347e56d7571a1bb6120dba3a6-5'' \<and>
   parse ''01965347e56d7571a1bb6120dba3a6-5'' = Inl format_error \<and>
   layout_ok ''01965347e56d7571a1bb6120dba3a645'' \<and>
   all_hex ''01965347e56d7571a1bb6120dba3a645'' \<and>
   (\<exists>u. parse ''01965347e56d7571a1bb6120dba3a645'' = Inr u)"
  using parse_forms_and_error_kinds [of "''01965347-e56d-7571-a1bb-''"]
    parse_forms_and_error_kinds [of "''0196534-7e56-d757-1a1b-b6120dba3a645''"]
    parse_forms_and_error_kinds [of "''75f50a24-995d-4606-bf3e-7f6c5b76c5c1''"]
    parse_forms_and_error_kinds [of "''01965347-e56d-7571-a1bb-6120dba3''"]
    parse_forms_and_error_kinds [of "''01965347-e56d-7571-01bb-6120dba3a645''"]
    parse_forms_and_error_kinds [of "''01965347-e56d-7571-a1bb-6120dba3a64Z''"]
    parse_forms_and_error_kinds [of "''01965347e56d7571a1bb6120dba3a6-5''"]
    parse_forms_and_error_kinds [of "''01965347e56d7571a1bb6120dba3a645''"]
  by (simp add: layout_ok_def no_stray_hyphens_def first_check_ok_def hyphens_ok_def
      version_position_def variant_position_def all_hex_def hex_positions_def upt_0_8 upt_0_32
      is_hex_digit_def hex_digit_values VARIANT_def)

text \<open>
  C7. \<open>try_parse\<close> returns a value exactly when \<open>parse\<close> does, the same one, and is
  empty in each of the three failures of \<open>parse\<close>; \<open>parse\<close> has no other outcome.
\<close>

theorem try_parse_agrees_with_parse:
  "try_parse s = (case parse s of Inl e \<Rightarrow> None | Inr u \<Rightarrow> Some u) \<and>
   (parse s = Inl format_error \<or> parse s = Inl version_error \<or> parse s = Inl variant_error \<or>
    (\<exists>u. parse s = Inr u \<and> try_parse s = Some u))"
  by (simp add: parse_by_check_order [of s] try_parse_by_check_order [of s] split: ParseResult.splits)

theorem try_parse_agrees_with_parse_witness:
  "try_parse ''01965347-e56d-7571-a1bb-6120dba3a645'' =
     Some [0x01, 0x96, 0x53, 0x47, 0xe5, 0x6d, 0x75, 0x71, 0xa1, 0xbb, 0x61, 0x20, 0xdb, 0xa3, 0xa6, 0x45]"
  using try_parse_agrees_with_parse [of "''01965347-e56d-7571-a1bb-6120dba3a645''"]
  by (simp add: parse_scenario_B)

text \<open>
  C8. On sixteen bytes \<open>from_bytes\<close> looks at the high nibble of byte 6 and the top two
  bits of byte 8 only: when they are 7 and \<open>0b10\<close> it returns the bytes unchanged, and
  \<open>get_bytes\<close> gives them back; otherwise it throws \<open>invalid_format_error\<close>. The
  pointer overload does the same on the sixteen bytes pointed to, and throws
  \<open>invalid_format_error\<close> on a null pointer.
\<close>

theorem from_bytes_checks_version_and_variant:
  assumes "length b = 16"
  shows "from_bytes b =
      (if version_of b \<noteq> 7 then Inl (invalid_format_error ''Invalid UUID Version 7 version'')
       else if variant_of b \<noteq> 2 then Inl (invalid_format_error ''Invalid UUID Version 7 variant'')
       else Inr b) \<and>
    (version_of b = 7 \<and> variant_of b = 2 \<longrightarrow> map_sum id get_bytes (from_bytes b) = Inr b) \<and>
    from_bytes_ptr (Some b) = from_bytes b \<and>
    from_bytes_ptr None = Inl (invalid_format_error ''Input pointer is null'')"
proof -
  have "from_bytes_ptr (Some b) = from_bytes b"
    unfolding from_bytes_ptr_def option.case copy_loop_16 [OF assms] ..
  then show ?thesis
    by (simp add: from_bytes_def from_bytes_ptr_def version_of_def variant_of_def
        VERSION_def VARIANT_def get_bytes_def del: copy_loop.simps)
qed

theorem from_bytes_checks_version_and_variant_witness:
  "length [0x01, 0x96, 0x53, 0x47, 0xe5, 0x6d, 0x75, 0x71, 0xa1, 0xbb, 0x61, 0x20, 0xdb, 0xa3, 0xa6, 0x45 :: u8] = 16 \<and>
   from_bytes [0x01, 0x96, 0x53, 0x47, 0xe5, 0x6d, 0x75, 0x71, 0xa1, 0xbb, 0x61, 0x20, 0xdb, 0xa3, 0xa6, 0x45]
     = Inr [0x01, 0x96, 0x53, 0x47, 0xe5, 0x6d, 0x75, 0x71, 0xa1, 0xbb, 0x61, 0x20, 0xdb, 0xa3, 0xa6, 0x45] \<and>
   from_bytes_ptr (Some [0x01, 0x96, 0x53, 0x47, 0xe5, 0x6d, 0x75, 0x71, 0xa1, 0xbb, 0x61, 0x20, 0xdb, 0xa3, 0xa6, 0x45])
     = Inr [0x01, 0x96, 0x53, 0x47, 0xe5, 0x6d, 0x75, 0x71, 0xa1, 0xbb, 0x61, 0x20, 0xdb, 0xa3, 0xa6, 0x45] \<and>
   from_bytes [0x01, 0x96, 0x53, 0x47, 0xe5, 0x6d, 0x45, 0x71, 0xa1, 0xbb, 0x61, 0x20, 0xdb, 0xa3, 0xa6, 0x45]
     = Inl (invalid_format_error ''Invalid UUID Version 7 version'') \<and>
   from_bytes [0x01, 0x96, 0x53, 0x47, 0xe5, 0x6d, 0x75, 0x71, 0x21, 0xbb, 0x61, 0x20, 0xdb, 0xa3, 0xa6, 0x45]
     = Inl (invalid_format_error ''Invalid UUID Version 7 variant'')"
  using from_bytes_checks_version_and_variant
    [of "[0x01, 0x96, 0x53, 0x47, 0xe5, 0x6d, 0x75, 0x71, 0xa1, 0xbb, 0x61, 0x20, 0xdb, 0xa3, 0xa6, 0x45]"]
    from_bytes_checks_version_and_variant
    [of "[0x01, 0x96, 0x53, 0x47, 0xe5, 0x6d, 0x45, 0x71, 0xa1, 0xbb, 0x61, 0x20, 0xdb, 0xa3, 0xa6, 0x45]"]
    from_bytes_checks_version_and_variant
    [of "[0x01, 0x96, 0x53, 0x47, 0xe5, 0x6d, 0x75, 0x71, 0x21, 0xbb, 0x61, 0x20, 0xdb, 0xa3, 0xa6, 0x45]"]
  by (simp add: version_of_def variant_of_def)

text \<open>
  C10, as the claim states it, fails: misplaced hyphens are not always reported before
  anything else. The string \<open>01965347-e56d7571a1bb6120dba3a64\<close> has 32 characters, one
  of them a hyphen, and \<open>d\<close> at the version position: the order of the claim gives the
  format error, \<open>parse_inner\<close> gives the version error.
\<close>

theorem parse_version_before_stray_hyphen:
  "\<not> layout_ok ''01965347-e56d7571a1bb6120dba3a64'' \<and>
   classify ''01965347-e56d7571a1bb6120dba3a64'' = InvalidFormat \<and>
   fst (parse_inner ''01965347-e56d7571a1bb6120dba3a64'' uuidv7_zero) = InvalidVersion \<and>
   parse ''01965347-e56d7571a1bb6120dba3a64'' = Inl version_error \<and>
   parse ''01965347-e56d7571a1bb6120dba3a64'' \<noteq> Inl format_error"
  by (simp add: classify_def layout_ok_def no_stray_hyphens_def hex_positions_def upt_0_32
      parse_def parse_inner_def parse_checks_def version_error_def format_error_def)

text \<open>
  C10, amended. The failure that \<open>parse\<close> reports follows a fixed order: first the
  length and, for 36 characters, the hyphens at 8, 13, 18 and 23 (format error); then the
  version character (version error); then the variant character (no hexadecimal digit:
  format error; a digit with other top bits: variant error); and the remaining characters
  last, where a hyphen at a digit position counts as a character that is no hexadecimal
  digit. So a string that passes the first test with a wrong version character and a
  character that is no hexadecimal digit reports the version error. On every string with
  no hyphen at a digit position, and on every string that fails the first test, this is
  the order of the claim.
\<close>

theorem parse_failure_priority:
  "fst (parse_inner s r) = check_order s \<and>
   (check_order s = InvalidFormat \<longleftrightarrow> parse s = Inl format_error) \<and>
   (check_order s = InvalidVersion \<longleftrightarrow> parse s = Inl version_error) \<and>
   (check_order s = InvalidVariant \<longleftrightarrow> parse s = Inl variant_error) \<and>
   (check_order s = Success \<longleftrightarrow> (\<exists>u. parse s = Inr u)) \<and>
   (first_check_ok s \<and> s ! version_position s \<noteq> CHR ''7'' \<and> \<not> all_hex s
      \<longrightarrow> parse s = Inl version_error) \<and>
   (layout_ok s \<or> \<not> first_check_ok s \<longrightarrow> fst (parse_inner s r) = classify s)"
  using classify_check_order [of s]
  by (auto simp: parse_inner_check_order parse_by_check_order [of s] check_order_def
      version_error_def variant_error_def format_error_def split: ParseResult.splits)

theorem parse_failure_priority_witness:
  "first_check_ok ''Z1965347-e56d-4571-01bb-6120dba3a64Z'' \<and>
   layout_ok ''Z1965347-e56d-4571-01bb-6120dba3a64Z'' \<and>
   ''Z1965347-e56d-4571-01bb-6120dba3a64Z'' ! version_position ''Z1965347-e56d-4571-01bb-6120dba3a64Z''
     \<noteq> CHR ''7'' \<and>
   \<not> all_hex ''Z1965347-e56d-4571-01bb-6120dba3a64Z'' \<and>
   parse ''Z1965347-e56d-4571-01bb-6120dba3a64Z'' = Inl version_error \<and>
   classify ''Z1965347-e56d-4571-01bb-6120dba3a64Z'' = InvalidVersion \<and>
   fst (parse_inner ''Z1965347-e56d-4571-01bb-6120dba3a64Z'' uuidv7_zero) = InvalidVersion"
  using parse_failure_priority [of "''Z1965347-e56d-4571-01bb-6120dba3a64Z''" uuidv7_zero]
  by (simp add: layout_ok_def no_stray_hyphens_def first_check_ok_def hyphens_ok_def
      version_position_def variant_position_def all_hex_def hex_positions_def upt_0_8
      is_hex_digit_def classify_def)

section \<open>The generator and the constructor\<close>

text \<open>
  C1. A call of \<open>generate\<close> that fails leaves the stored value as it was; seeded with the
  maximal tail and a timestamp not behind the clock, a first call fails with the sequence
  overflow and a second call fails the same way. The code does otherwise: on the seed
  \<open>04 18 46 e8 1c 98 7f ff bf ff ff ff ff ff ff ff\<close> the first call throws the overflow
  after it has reset bytes 7 to 15, so the stored value is
  \<open>04 18 46 e8 1c 98 7f 00 80 00 00 00 00 00 00 00\<close>; the second call then returns a
  value, which is below the seed.
\<close>

theorem generate_overflow_changes_stored_value:
  "generate gr 0x01965347e56d
      ([0x04, 0x18, 0x46, 0xe8, 0x1c, 0x98, 0x7f, 0xff, 0xbf, 0xff, 0xff, 0xff, 0xff, 0xff, 0xff, 0xff], rs) =
     (Inl (sequence_overflow_error
        ''Too many UUIDs generated in the same millisecond; sequence counter overflowed.''),
      [0x04, 0x18, 0x46, 0xe8, 0x1c, 0x98, 0x7f, 0x00, 0x80, 0, 0, 0, 0, 0, 0, 0], rs) \<and>
   generate gr 0x01965347e56d
      ([0x04, 0x18, 0x46, 0xe8, 0x1c, 0x98, 0x7f, 0x00, 0x80, 0, 0, 0, 0, 0, 0, 0], rs) =
     (Inr [0x04, 0x18, 0x46, 0xe8, 0x1c, 0x98, 0x7f, 0x00, 0x80, 0, 0, 0, 0, 0, 0, 1],
      [0x04, 0x18, 0x46, 0xe8, 0x1c, 0x98, 0x7f, 0x00, 0x80, 0, 0, 0, 0, 0, 0, 1], rs) \<and>
   uuid_less [0x04, 0x18, 0x46, 0xe8, 0x1c, 0x98, 0x7f, 0x00, 0x80, 0, 0, 0, 0, 0, 0, 1]
     [0x04, 0x18, 0x46, 0xe8, 0x1c, 0x98, 0x7f, 0xff, 0xbf, 0xff, 0xff, 0xff, 0xff, 0xff, 0xff, 0xff]"
  by (simp add: generate_def Let_def millis_bytes_explicit increment_branch_def while_loop_explicit
      do_block_explicit)

text \<open>
  C2. On one generator, any number of calls in succession that all return a value return a
  strictly increasing sequence under the bytewise order, whatever the clock reads at each
  call; the first value is above the stored one.
\<close>

theorem generate_strictly_increasing:
  assumes "length stored = 16"
    and "generate_seq gr clock (stored, rs) = (results, s')"
    and "\<forall>r \<in> set results. \<exists>v. r = Inr v"
  shows "sorted_wrt uuid_less (stored # map projr results) \<and> length results = length clock"
  using generate_seq_sorted [OF assms] generate_seq_length [OF assms(2)] by simp

theorem generate_strictly_increasing_witness:
  "generate_seq (const_random [0x12, 0x34, 0x56, 0x78, 0x9a, 0xbc, 0xde, 0xf0, 0x11, 0x22])
      [0x01965347e56d, 0x01965347e56d, 0x01965347e000, 0x01965347e56e]
      ([0, 0, 0, 0, 0, 0, 0x70, 0, 0x80, 0, 0, 0, 0, 0, 0, 0], 0) =
     ([Inr [0x01, 0x96, 0x53, 0x47, 0xe5, 0x6d, 0x71, 0x34, 0x95, 0x78, 0x9a, 0xbc, 0xde, 0xf0, 0x11, 0x22],
       Inr [0x01, 0x96, 0x53, 0x47, 0xe5, 0x6d, 0x71, 0x34, 0x95, 0x78, 0x9a, 0xbc, 0xde, 0xf0, 0x11, 0x23],
       Inr [0x01, 0x96, 0x53, 0x47, 0xe5, 0x6d, 0x71, 0x34, 0x95, 0x78, 0x9a, 0xbc, 0xde, 0xf0, 0x11, 0x24],
       Inr [0x01, 0x96, 0x53, 0x47, 0xe5, 0x6e, 0x71, 0x34, 0x95, 0x78, 0x9a, 0xbc, 0xde, 0xf0, 0x11, 0x22]],
      [0x01, 0x96, 0x53, 0x47, 0xe5, 0x6e, 0x71, 0x34, 0x95, 0x78, 0x9a, 0xbc, 0xde, 0xf0, 0x11, 0x22], 2) \<and>
   sorted_wrt uuid_less
     [[0, 0, 0, 0, 0, 0, 0x70, 0, 0x80, 0, 0, 0, 0, 0, 0, 0],
      [0x01, 0x96, 0x53, 0x47, 0xe5, 0x6d, 0x71, 0x34, 0x95, 0x78, 0x9a, 0xbc, 0xde, 0xf0, 0x11, 0x22],
      [0x01, 0x96, 0x53, 0x47, 0xe5, 0x6d, 0x71, 0x34, 0x95, 0x78, 0x9a, 0xbc, 0xde, 0xf0, 0x11, 0x23],
      [0x01, 0x96, 0x53, 0x47, 0xe5, 0x6d, 0x71, 0x34, 0x95, 0x78, 0x9a, 0xbc, 0xde, 0xf0, 0x11, 0x24],
      [0x01, 0x96, 0x53, 0x47, 0xe5, 0x6e, 0x71, 0x34, 0x95, 0x78, 0x9a, 0xbc, 0xde, 0xf0, 0x11, 0x22]]"
proof -
  have run: "generate_seq (const_random [0x12, 0x34, 0x56, 0x78, 0x9a, 0xbc, 0xde, 0xf0, 0x11, 0x22])
      [0x01965347e56d, 0x01965347e56d, 0x01965347e000, 0x01965347e56e]
      ([0, 0, 0, 0, 0, 0, 0x70, 0, 0x80, 0, 0, 0, 0, 0, 0, 0], 0) =
     ([Inr [0x01, 0x96, 0x53, 0x47, 0xe5, 0x6d, 0x71, 0x34, 0x95, 0x78, 0x9a, 0xbc, 0xde, 0xf0, 0x11, 0x22],
       Inr [0x01, 0x96, 0x53, 0x47, 0xe5, 0x6d, 0x71, 0x34, 0x95, 0x78, 0x9a, 0xbc, 0xde, 0xf0, 0x11, 0x23],
       Inr [0x01, 0x96, 0x53, 0x47, 0xe5, 0x6d, 0x71, 0x34, 0x95, 0x78, 0x9a, 0xbc, 0xde, 0xf0, 0x11, 0x24],
       Inr [0x01, 0x96, 0x53, 0x47, 0xe5, 0x6e, 0x71, 0x34, 0x95, 0x78, 0x9a, 0xbc, 0xde, 0xf0, 0x11, 0x22]],
      [0x01, 0x96, 0x53, 0x47, 0xe5, 0x6e, 0x71, 0x34, 0x95, 0x78, 0x9a, 0xbc, 0xde, 0xf0, 0x11, 0x22], 2)"
    by (simp add: generate_def Let_def millis_bytes_explicit fresh_branch_explicit const_random_def
        increment_branch_def while_loop_explicit do_block_explicit)
  have len: "length [0, 0, 0, 0, 0, 0, 0x70, 0, 0x80, 0, 0, 0, 0, 0, 0, 0 :: u8] = 16"
    by simp
  show ?thesis
    using generate_strictly_increasing [OF len run] run by simp
qed

text \<open>
  C3. When the timestamp of the stored value is not below the clock and the 74-bit counter
  is not all ones, \<open>generate\<close> returns and stores a value with the same six timestamp
  bytes, the counter one greater, and version and variant as before; the random source is
  not called and keeps its state. Seeded with
  \<open>04 18 46 e8 1c 98 70 00 80 00 00 00 00 00 00 00\<close> and a clock not past that
  timestamp, the first call returns the seed with the last byte \<open>01\<close>.
\<close>

theorem generate_same_or_regressed_time:
  "(valid_uuid stored \<and> \<not> unix_ts_ms_of stored < unat millis mod 2 ^ 48 \<and>
      counter74 stored \<noteq> 2 ^ 74 - 1 \<longrightarrow>
      (\<exists>v. generate gr millis (stored, rs) = (Inr v, v, rs) \<and> length v = 16 \<and>
         take 6 v = take 6 stored \<and> counter74 v = counter74 stored + 1 \<and>
         version_of v = version_of stored \<and> variant_of v = variant_of stored)) \<and>
   (\<not> 0x041846e81c98 < unat millis mod 2 ^ 48 \<longrightarrow>
      generate gr millis
        ([0x04, 0x18, 0x46, 0xe8, 0x1c, 0x98, 0x70, 0x00, 0x80, 0, 0, 0, 0, 0, 0, 0], rs) =
        (Inr [0x04, 0x18, 0x46, 0xe8, 0x1c, 0x98, 0x70, 0x00, 0x80, 0, 0, 0, 0, 0, 0, 1],
         [0x04, 0x18, 0x46, 0xe8, 0x1c, 0x98, 0x70, 0x00, 0x80, 0, 0, 0, 0, 0, 0, 1], rs))"
proof (intro conjI impI)
  assume a: "valid_uuid stored \<and> \<not> unix_ts_ms_of stored < unat millis mod 2 ^ 48 \<and>
      counter74 stored \<noteq> 2 ^ 74 - 1"
  then have len: "length stored = 16" and var: "variant_of stored = VARIANT"
    by (simp_all add: valid_uuid_def)
  from a have behind: "\<not> unix_ts_ms_of stored < unat millis mod 2 ^ 48" by simp
  obtain v oe where inc: "increment_branch stored = (v, oe)"
    by (cases "increment_branch stored") auto
  have "oe = None"
  proof (cases oe)
    case (Some e)
    from increment_overflow(1) [OF len inc [unfolded Some]] a show ?thesis by simp
  qed simp
  with inc have inc': "increment_branch stored = (v, None)" by simp
  have "generate gr millis (stored, rs) = (Inr v, v, rs)"
    unfolding generate_increment [OF len behind] inc' by simp
  then show "\<exists>v. generate gr millis (stored, rs) = (Inr v, v, rs) \<and> length v = 16 \<and>
         take 6 v = take 6 stored \<and> counter74 v = counter74 stored + 1 \<and>
         version_of v = version_of stored \<and> variant_of v = variant_of stored"
    using increment_success [OF len inc'] var by auto
next
  let ?seed = "[0x04, 0x18, 0x46, 0xe8, 0x1c, 0x98, 0x70, 0x00, 0x80, 0, 0, 0, 0, 0, 0, 0] :: bytes"
  assume b: "\<not> 0x041846e81c98 < unat millis mod 2 ^ 48"
  have len: "length ?seed = 16" by simp
  have "unix_ts_ms_of ?seed = 0x041846e81c98"
    by (simp add: unix_ts_ms_of_def be_nat_6)
  with b have behind: "\<not> unix_ts_ms_of ?seed < unat millis mod 2 ^ 48" by simp
  show "generate gr millis (?seed, rs) =
        (Inr [0x04, 0x18, 0x46, 0xe8, 0x1c, 0x98, 0x70, 0x00, 0x80, 0, 0, 0, 0, 0, 0, 1],
         [0x04, 0x18, 0x46, 0xe8, 0x1c, 0x98, 0x70, 0x00, 0x80, 0, 0, 0, 0, 0, 0, 1], rs)"
    unfolding generate_increment [OF len behind]
    by (simp add: increment_branch_def while_loop_explicit)
qed

theorem generate_same_or_regressed_time_witness:
  "valid_uuid [0x01, 0x96, 0x53, 0x47, 0xe5, 0x6d, 0x75, 0x71, 0xa1, 0xff, 0xff, 0xff, 0xff, 0xff, 0xff, 0xff] \<and>
   \<not> unix_ts_ms_of [0x01, 0x96, 0x53, 0x47, 0xe5, 0x6d, 0x75, 0x71, 0xa1, 0xff, 0xff, 0xff, 0xff, 0xff, 0xff, 0xff]
       < unat (0x01965347e000 :: u64) mod 2 ^ 48 \<and>
   counter74 [0x01, 0x96, 0x53, 0x47, 0xe5, 0x6d, 0x75, 0x71, 0xa1, 0xff, 0xff, 0xff, 0xff, 0xff, 0xff, 0xff]
       \<noteq> 2 ^ 74 - 1 \<and>
   generate (const_random []) 0x01965347e000
     ([0x01, 0x96, 0x53, 0x47, 0xe5, 0x6d, 0x75, 0x71, 0xa1, 0xff, 0xff, 0xff, 0xff, 0xff, 0xff, 0xff], 0) =
     (Inr [0x01, 0x96, 0x53, 0x47, 0xe5, 0x6d, 0x75, 0x71, 0xa2, 0, 0, 0, 0, 0, 0, 0],
      [0x01, 0x96, 0x53, 0x47, 0xe5, 0x6d, 0x75, 0x71, 0xa2, 0, 0, 0, 0, 0, 0, 0], 0) \<and>
   \<not> 0x041846e81c98 < unat (0x01965347e000 :: u64) mod 2 ^ 48 \<and>
   generate (const_random []) 0x01965347e000
     ([0x04, 0x18, 0x46, 0xe8, 0x1c, 0x98, 0x70, 0x00, 0x80, 0, 0, 0, 0, 0, 0, 0], 0) =
     (Inr [0x04, 0x18, 0x46, 0xe8, 0x1c, 0x98, 0x70, 0x00, 0x80, 0, 0, 0, 0, 0, 0, 1],
      [0x04, 0x18, 0x46, 0xe8, 0x1c, 0x98, 0x70, 0x00, 0x80, 0, 0, 0, 0, 0, 0, 1], 0)"
proof -
  let ?s = "[0x01, 0x96, 0x53, 0x47, 0xe5, 0x6d, 0x75, 0x71, 0xa1, 0xff, 0xff, 0xff, 0xff, 0xff, 0xff, 0xff] :: bytes"
  have h1: "valid_uuid ?s"
    by (simp add: valid_uuid_def version_of_def variant_of_def VERSION_def VARIANT_def)
  have h2: "\<not> unix_ts_ms_of ?s < unat (0x01965347e000 :: u64) mod 2 ^ 48"
    by (simp add: unix_ts_ms_of_def be_nat_6)
  have h3: "counter74 ?s \<noteq> 2 ^ 74 - 1"
    by (simp add: counter74_explicit be_nat_7)
  have h4: "\<not> 0x041846e81c98 < unat (0x01965347e000 :: u64) mod 2 ^ 48"
    by simp
  have run: "generate (const_random []) 0x01965347e000 (?s, 0 :: nat) =
     (Inr [0x01, 0x96, 0x53, 0x47, 0xe5, 0x6d, 0x75, 0x71, 0xa2, 0, 0, 0, 0, 0, 0, 0],
      [0x01, 0x96, 0x53, 0x47, 0xe5, 0x6d, 0x75, 0x71, 0xa2, 0, 0, 0, 0, 0, 0, 0], 0)"
    by (simp add: generate_def Let_def millis_bytes_explicit increment_branch_def
        while_loop_explicit do_block_explicit)
  show ?thesis
    using generate_same_or_regressed_time
      [of ?s "0x01965347e000" "const_random []" "0 :: nat"] h1 h2 h3 h4 run
    by simp
qed

text \<open>
  C4, as the claim states it, fails: \<open>rand_a\<close> is not the top 12 bits of the ten random
  bytes. With the random bytes \<open>12 34 56 78 9a bc de f0 11 22\<close> the top 12 bits are
  \<open>0x123\<close> and the value returned has \<open>rand_a = 0x134\<close>.
\<close>

theorem generate_rand_a_not_top_12_bits:
  "generate (const_random [0x12, 0x34, 0x56, 0x78, 0x9a, 0xbc, 0xde, 0xf0, 0x11, 0x22]) 0x01965347e56d
      ([0, 0, 0, 0, 0, 0, 0x70, 0, 0x80, 0, 0, 0, 0, 0, 0, 0], 0) =
     (Inr [0x01, 0x96, 0x53, 0x47, 0xe5, 0x6d, 0x71, 0x34, 0x95, 0x78, 0x9a, 0xbc, 0xde, 0xf0, 0x11, 0x22],
      [0x01, 0x96, 0x53, 0x47, 0xe5, 0x6d, 0x71, 0x34, 0x95, 0x78, 0x9a, 0xbc, 0xde, 0xf0, 0x11, 0x22], 1) \<and>
   unix_ts_ms_of [0, 0, 0, 0, 0, 0, 0x70, 0, 0x80, 0, 0, 0, 0, 0, 0, 0]
     < unat (0x01965347e56d :: u64) mod 2 ^ 48 \<and>
   rand_a_of [0x01, 0x96, 0x53, 0x47, 0xe5, 0x6d, 0x71, 0x34, 0x95, 0x78, 0x9a, 0xbc, 0xde, 0xf0, 0x11, 0x22]
     = 0x134 \<and>
   top_bits 12 [0x12, 0x34, 0x56, 0x78, 0x9a, 0xbc, 0xde, 0xf0, 0x11, 0x22] = 0x123 \<and>
   rand_a_of [0x01, 0x96, 0x53, 0x47, 0xe5, 0x6d, 0x71, 0x34, 0x95, 0x78, 0x9a, 0xbc, 0xde, 0xf0, 0x11, 0x22]
     \<noteq> top_bits 12 [0x12, 0x34, 0x56, 0x78, 0x9a, 0xbc, 0xde, 0xf0, 0x11, 0x22]"
proof -
  have run: "generate (const_random [0x12, 0x34, 0x56, 0x78, 0x9a, 0xbc, 0xde, 0xf0, 0x11, 0x22]) 0x01965347e56d
      ([0, 0, 0, 0, 0, 0, 0x70, 0, 0x80, 0, 0, 0, 0, 0, 0, 0], 0) =
     (Inr [0x01, 0x96, 0x53, 0x47, 0xe5, 0x6d, 0x71, 0x34, 0x95, 0x78, 0x9a, 0xbc, 0xde, 0xf0, 0x11, 0x22],
      [0x01, 0x96, 0x53, 0x47, 0xe5, 0x6d, 0x71, 0x34, 0x95, 0x78, 0x9a, 0xbc, 0xde, 0xf0, 0x11, 0x22], 1)"
    by (simp add: generate_def Let_def millis_bytes_explicit fresh_branch_explicit const_random_def)
  have ts: "unix_ts_ms_of [0, 0, 0, 0, 0, 0, 0x70, 0, 0x80, 0, 0, 0, 0, 0, 0, 0]
     < unat (0x01965347e56d :: u64) mod 2 ^ 48"
    by (simp add: unix_ts_ms_of_def be_nat_6)
  have a: "rand_a_of
      [0x01, 0x96, 0x53, 0x47, 0xe5, 0x6d, 0x71, 0x34, 0x95, 0x78, 0x9a, 0xbc, 0xde, 0xf0, 0x11, 0x22]
     = 0x134"
    by (simp add: rand_a_of_def)
  have t: "top_bits 12 [0x12, 0x34, 0x56, 0x78, 0x9a, 0xbc, 0xde, 0xf0, 0x11, 0x22] = 0x123"
    by (simp add: top_bits_def be_nat_def)
  show ?thesis
    unfolding a t using run ts by simp
qed

text \<open>
  C4, amended. When the timestamp of the stored value is below the clock, \<open>generate\<close>
  calls the random source once. If that returns ten bytes, the value returned and stored
  has the low 48 bits of the clock as timestamp, version 7, variant \<open>0b10\<close>, as
  \<open>rand_a\<close> the high nibble of random byte 0 followed by random byte 1, and as
  \<open>rand_b\<close> the top six bits of random byte 2 followed by random bytes 3 to 9. If the
  random source throws, the call throws the same and the stored value stays.
\<close>

theorem generate_time_advanced:
  assumes "length stored = 16" and "unix_ts_ms_of stored < unat millis mod 2 ^ 48"
  shows "(generate_random rs = (Inr rand, rs1) \<and> length rand = 10 \<longrightarrow>
      (\<exists>v. generate generate_random millis (stored, rs) = (Inr v, v, rs1) \<and> length v = 16 \<and>
         unix_ts_ms_of v = unat millis mod 2 ^ 48 \<and> version_of v = 7 \<and> variant_of v = 2 \<and>
         rand_a_of v = (unat (rand ! 0) div 16) * 256 + unat (rand ! 1) \<and>
         rand_b_of v = (unat (rand ! 2) div 4) * 2 ^ 56 + be_nat (drop 3 rand))) \<and>
   (generate_random rs = (Inl e, rs1) \<longrightarrow>
      generate generate_random millis (stored, rs) = (Inl e, stored, rs1))"
proof (intro conjI impI)
  assume a: "generate_random rs = (Inr rand, rs1) \<and> length rand = 10"
  let ?v = "fresh_branch stored (millis_bytes_of millis) rand"
  have "generate generate_random millis (stored, rs) = (Inr ?v, ?v, rs1)"
    unfolding generate_fresh [OF assms] using a by simp
  then show "\<exists>v. generate generate_random millis (stored, rs) = (Inr v, v, rs1) \<and> length v = 16 \<and>
         unix_ts_ms_of v = unat millis mod 2 ^ 48 \<and> version_of v = 7 \<and> variant_of v = 2 \<and>
         rand_a_of v = (unat (rand ! 0) div 16) * 256 + unat (rand ! 1) \<and>
         rand_b_of v = (unat (rand ! 2) div 4) * 2 ^ 56 + be_nat (drop 3 rand)"
    using fresh_branch_props [OF assms(1) refl, of millis rand] a
    by (simp only: drop_3_of_10) blast
next
  assume "generate_random rs = (Inl e, rs1)"
  then show "generate generate_random millis (stored, rs) = (Inl e, stored, rs1)"
    unfolding generate_fresh [OF assms] by simp
qed

theorem generate_time_advanced_witness:
  "length [0, 0, 0, 0, 0, 0, 0x70, 0, 0x80, 0, 0, 0, 0, 0, 0, 0 :: u8] = 16 \<and>
   unix_ts_ms_of [0, 0, 0, 0, 0, 0, 0x70, 0, 0x80, 0, 0, 0, 0, 0, 0, 0]
     < unat (0x01965347e56d :: u64) mod 2 ^ 48 \<and>
   const_random [0x12, 0x34, 0x56, 0x78, 0x9a, 0xbc, 0xde, 0xf0, 0x11, 0x22] 0 =
     (Inr [0x12, 0x34, 0x56, 0x78, 0x9a, 0xbc, 0xde, 0xf0, 0x11, 0x22], 1) \<and>
   (\<exists>v. generate (const_random [0x12, 0x34, 0x56, 0x78, 0x9a, 0xbc, 0xde, 0xf0, 0x11, 0x22])
          0x01965347e56d ([0, 0, 0, 0, 0, 0, 0x70, 0, 0x80, 0, 0, 0, 0, 0, 0, 0], 0) = (Inr v, v, 1) \<and>
        unix_ts_ms_of v = 0x01965347e56d \<and> version_of v = 7 \<and> variant_of v = 2 \<and>
        rand_a_of v = 0x134 \<and> rand_b_of v = 0x15789abcdef01122) \<and>
   generate (failing_random (system_error ''getrandom failed to generate random bytes''))
        0x01965347e56d ([0, 0, 0, 0, 0, 0, 0x70, 0, 0x80, 0, 0, 0, 0, 0, 0, 0], 0) =
     (Inl (system_error ''getrandom failed to generate random bytes''),
      [0, 0, 0, 0, 0, 0, 0x70, 0, 0x80, 0, 0, 0, 0, 0, 0, 0], 0)"
proof -
  let ?s = "[0, 0, 0, 0, 0, 0, 0x70, 0, 0x80, 0, 0, 0, 0, 0, 0, 0] :: bytes"
  let ?r = "[0x12, 0x34, 0x56, 0x78, 0x9a, 0xbc, 0xde, 0xf0, 0x11, 0x22] :: bytes"
  have len: "length ?s = 16" by simp
  have ts: "unix_ts_ms_of ?s < unat (0x01965347e56d :: u64) mod 2 ^ 48"
    by (simp add: unix_ts_ms_of_def be_nat_6)
  have r: "const_random ?r 0 = (Inr ?r, 1)"
    by (simp add: const_random_def)
  show ?thesis
    using generate_time_advanced [OF len ts,
        where generate_random = "const_random ?r" and rs = 0 and rand = ?r and ?rs1.0 = 1]
      generate_time_advanced [OF len ts,
        where generate_random =
          "failing_random (system_error ''getrandom failed to generate random bytes'')"
        and rs = 0 and e = "system_error ''getrandom failed to generate random bytes''"
        and ?rs1.0 = 0]
      len ts r
    by (simp add: be_nat_7 failing_random_def) blast
qed

text \<open>
  C9, as the claim states it, fails: the constructor has no assertion on the timestamp. On
  \<open>unix_ts_ms = 2 ^ 48\<close>, which does not fit 48 bits, it returns the encoding of
  timestamp 0.
\<close>

theorem uuidv7_ctor_accepts_wide_timestamp:
  "\<not> unat (0x1000000000000 :: u64) < 2 ^ 48 \<and>
   uuidv7_ctor 0x1000000000000 0 0 = Inr [0, 0, 0, 0, 0, 0, 0x70, 0, 0x80, 0, 0, 0, 0, 0, 0, 0] \<and>
   uuidv7_ctor 0x1000000000000 0 0 \<noteq> Inl assertion_failed"
  by (simp add: uuidv7_ctor_def MAX_RAND_A_def MAX_RAND_B_def VERSION_def VARIANT_def)

text \<open>
  C9, amended. The constructor asserts \<open>rand_a \<le> 0x0FFF\<close> and
  \<open>rand_b \<le> 0x3FFFFFFFFFFFFFFF\<close>, so either out of range is an assertion failure; the
  timestamp is not asserted, its low 48 bits are encoded. With both random fields in range
  the result is the 16-byte layout: timestamp modulo \<open>2 ^ 48\<close> in bytes 0 to 5, version
  7, \<open>rand_a\<close> in the low nibble of byte 6 and byte 7, variant \<open>0b10\<close>, \<open>rand_b\<close>
  in the low six bits of byte 8 and bytes 9 to 15.
\<close>

theorem uuidv7_ctor_asserts_and_encodes:
  "(\<not> rand_a \<le> 0x0FFF \<or> \<not> rand_b \<le> 0x3FFFFFFFFFFFFFFF \<longrightarrow>
      uuidv7_ctor ts rand_a rand_b = Inl assertion_failed) \<and>
   (rand_a \<le> 0x0FFF \<and> rand_b \<le> 0x3FFFFFFFFFFFFFFF \<longrightarrow>
      (\<exists>d. uuidv7_ctor ts rand_a rand_b = Inr d \<and> length d = 16 \<and>
         unix_ts_ms_of d = unat ts mod 2 ^ 48 \<and> version_of d = 7 \<and> rand_a_of d = unat rand_a \<and>
         variant_of d = 2 \<and> rand_b_of d = unat rand_b))"
proof (intro conjI impI)
  assume "\<not> rand_a \<le> 0x0FFF \<or> \<not> rand_b \<le> 0x3FFFFFFFFFFFFFFF"
  then show "uuidv7_ctor ts rand_a rand_b = Inl assertion_failed"
    by (auto simp: uuidv7_ctor_def MAX_RAND_A_def MAX_RAND_B_def)
next
  assume r: "rand_a \<le> 0x0FFF \<and> rand_b \<le> 0x3FFFFFFFFFFFFFFF"
  then obtain d where d: "uuidv7_ctor ts rand_a rand_b = Inr d"
    using uuidv7_ctor_bytes [of rand_a rand_b ts] by blast
  from r have a: "rand_a \<le> 0x0FFF" and b: "rand_b \<le> 0x3FFFFFFFFFFFFFFF" by simp_all
  show "\<exists>d. uuidv7_ctor ts rand_a rand_b = Inr d \<and> length d = 16 \<and>
         unix_ts_ms_of d = unat ts mod 2 ^ 48 \<and> version_of d = 7 \<and> rand_a_of d = unat rand_a \<and>
         variant_of d = 2 \<and> rand_b_of d = unat rand_b"
    using d uuidv7_ctor_fields [OF a b d] by blast
qed

theorem uuidv7_ctor_asserts_and_encodes_witness:
  "uuidv7_ctor 0x01965347e56d 0x1000 0 = Inl assertion_failed \<and>
   uuidv7_ctor 0x01965347e56d 0 0x4000000000000000 = Inl assertion_failed \<and>
   (0x0571 :: u16) \<le> 0x0FFF \<and> (0x21bb6120dba3a645 :: u64) \<le> 0x3FFFFFFFFFFFFFFF \<and>
   (\<exists>d. uuidv7_ctor 0x01965347e56d 0x0571 0x21bb6120dba3a645 = Inr d \<and> length d = 16 \<and>
      unix_ts_ms_of d = 0x01965347e56d \<and> version_of d = 7 \<and> rand_a_of d = 0x0571 \<and>
      variant_of d = 2 \<and> rand_b_of d = 0x21bb6120dba3a645)"
  using uuidv7_ctor_asserts_and_encodes [of "0x1000" 0 "0x01965347e56d"]
    uuidv7_ctor_asserts_and_encodes [of 0 "0x4000000000000000" "0x01965347e56d"]
    uuidv7_ctor_asserts_and_encodes [of "0x0571" "0x21bb6120dba3a645" "0x01965347e56d"]
  by simp

end
